theory Spec2Isabelle
  imports Main "HOL-Library.Word"
begin

unbundle bit_operations_syntax

section \<open>Text: JavaScript strings and the UTF-8 codec\<close>

text \<open>
  A JavaScript string is a sequence of UTF-16 code units; \<open>length\<close> and \<open>slice\<close> count
  code units. A \<open>Uint8Array\<close> is a list of bytes. \<open>js\<close> embeds an ASCII literal.
\<close>

type_synonym byte = "8 word"
type_synonym jsstring = "16 word list"

definition js :: "string \<Rightarrow> jsstring" where
  "js s = map of_char s"

text \<open>
  \<open>new TextEncoder().encode(data)\<close>: the string is read as Unicode scalar values (a
  surrogate pair is one value, a lone surrogate becomes U+FFFD) and each value is written
  in UTF-8.
\<close>

fun scalars :: "jsstring \<Rightarrow> nat list" where
  "scalars [] = []"
| "scalars [u] = (if 0xD800 \<le> u \<and> u \<le> 0xDFFF then [0xFFFD] else [unat u])"
| "scalars (u # v # us) =
     (if 0xD800 \<le> u \<and> u \<le> 0xDBFF \<and> 0xDC00 \<le> v \<and> v \<le> 0xDFFF
      then (0x10000 + (unat u - 0xD800) * 0x400 + (unat v - 0xDC00)) # scalars us
      else if 0xD800 \<le> u \<and> u \<le> 0xDFFF then 0xFFFD # scalars (v # us)
      else unat u # scalars (v # us))"

definition utf8_bytes :: "nat \<Rightarrow> byte list" where
  "utf8_bytes c =
     (if c < 0x80 then [of_nat c]
      else if c < 0x800 then [of_nat (0xC0 + c div 0x40), of_nat (0x80 + c mod 0x40)]
      else if c < 0x10000 then
        [of_nat (0xE0 + c div 0x1000), of_nat (0x80 + c div 0x40 mod 0x40), of_nat (0x80 + c mod 0x40)]
      else
        [of_nat (0xF0 + c div 0x40000), of_nat (0x80 + c div 0x1000 mod 0x40),
         of_nat (0x80 + c div 0x40 mod 0x40), of_nat (0x80 + c mod 0x40)])"

definition TextEncoder_encode :: "jsstring \<Rightarrow> byte list" where
  "TextEncoder_encode s = concat (map utf8_bytes (scalars s))"

text \<open>
  \<open>new TextDecoder().decode(view)\<close> with the default options (UTF-8, not fatal, BOM
  not ignored): the decoder keeps the code point under construction, the number of
  continuation bytes seen and needed, and the bounds of the next continuation byte. A byte
  that cannot continue the sequence yields U+FFFD and is read again as the start of a new
  sequence; an unfinished sequence at the end yields U+FFFD. A leading U+FEFF is dropped,
  and the code points are returned as UTF-16 code units.
\<close>

fun utf8_decode :: "nat \<Rightarrow> nat \<Rightarrow> nat \<Rightarrow> nat \<Rightarrow> nat \<Rightarrow> byte list \<Rightarrow> nat list" where
  "utf8_decode cp seen needed lo hi [] = (if needed \<noteq> 0 then [0xFFFD] else [])"
| "utf8_decode cp seen needed lo hi (b # bs) =
     (let v = unat b in
      if needed = 0 then
        (if v \<le> 0x7F then v # utf8_decode 0 0 0 0x80 0xBF bs
         else if 0xC2 \<le> v \<and> v \<le> 0xDF then utf8_decode (v mod 0x20) 0 1 0x80 0xBF bs
         else if 0xE0 \<le> v \<and> v \<le> 0xEF then
           utf8_decode (v mod 0x10) 0 2 (if v = 0xE0 then 0xA0 else 0x80) (if v = 0xED then 0x9F else 0xBF) bs
         else if 0xF0 \<le> v \<and> v \<le> 0xF4 then
           utf8_decode (v mod 0x8) 0 3 (if v = 0xF0 then 0x90 else 0x80) (if v = 0xF4 then 0x8F else 0xBF) bs
         else 0xFFFD # utf8_decode 0 0 0 0x80 0xBF bs)
      else if \<not> (lo \<le> v \<and> v \<le> hi) then 0xFFFD # utf8_decode 0 0 0 0x80 0xBF (b # bs)
      else
        (let cp' = cp * 0x40 + v mod 0x40 in
         if seen + 1 \<noteq> needed then utf8_decode cp' (seen + 1) needed 0x80 0xBF bs
         else cp' # utf8_decode 0 0 0 0x80 0xBF bs))"

definition utf16_units :: "nat \<Rightarrow> jsstring" where
  "utf16_units c =
     (if c < 0x10000 then [of_nat c]
      else [of_nat (0xD800 + (c - 0x10000) div 0x400), of_nat (0xDC00 + (c - 0x10000) mod 0x400)])"

definition stripBOM :: "nat list \<Rightarrow> nat list" where
  "stripBOM cs = (case cs of [] \<Rightarrow> [] | c # rest \<Rightarrow> if c = 0xFEFF then rest else cs)"

definition TextDecoder_decode :: "byte list \<Rightarrow> jsstring" where
  "TextDecoder_decode bs = concat (map utf16_units (stripBOM (utf8_decode 0 0 0 0x80 0xBF bs)))"

section \<open>Errors and localized strings\<close>

text \<open>
  A thrown value: \<open>new Error(message)\<close>, the \<open>RangeError\<close> of typed arrays and
  \<open>DataView\<close>, the \<open>SyntaxError\<close> of \<open>JSON.parse\<close>, and the \<open>TypeError\<close> of a
  property read on \<open>null\<close>.
\<close>

datatype jserror = Error jsstring | RangeError | SyntaxError | TypeError

record OTAStrings =
  noDeviceSpecified :: jsstring
  noConnectedDevice :: jsstring
  deviceNotOpened :: jsstring
  dataTooLong :: jsstring
  emptyResponse :: jsstring
  unknownMessageType :: jsstring
  errorOpeningDevice :: jsstring
  errorSendingInit :: jsstring
  errorClosingDevice :: jsstring
  errorReceivingFeatureReport :: jsstring
  errorSendingFeatureReport :: jsstring

definition defaultStrings :: OTAStrings where
  "defaultStrings = \<lparr>
     noDeviceSpecified = js ''No device specified.'',
     noConnectedDevice = js ''No connected device'',
     deviceNotOpened = js ''Device not opened'',
     dataTooLong = js ''Data too long'',
     emptyResponse = js ''Empty response'',
     unknownMessageType = js ''Unknown message type: {msgType}'',
     errorOpeningDevice = js ''Error opening device: {error}'',
     errorSendingInit = js ''Error sending init: {error}'',
     errorClosingDevice = js ''Error closing device: {error}'',
     errorReceivingFeatureReport = js ''Error receiving feature report: {error}'',
     errorSendingFeatureReport = js ''Error sending feature report: {error}'' \<rparr>"

text \<open>
  The module keeps its current string table in the variable \<open>STRINGS\<close>, which starts as
  a copy of \<open>defaultStrings\<close>; every function below takes the current table as its
  first argument \<open>S\<close>. \<open>configureOtaLocale\<close> merges overrides, given by field name,
  into the table.
\<close>

fun setString :: "OTAStrings \<Rightarrow> string \<times> jsstring \<Rightarrow> OTAStrings" where
  "setString S (k, v) =
     (if k = ''noDeviceSpecified'' then S\<lparr>noDeviceSpecified := v\<rparr>
      else if k = ''noConnectedDevice'' then S\<lparr>noConnectedDevice := v\<rparr>
      else if k = ''deviceNotOpened'' then S\<lparr>deviceNotOpened := v\<rparr>
      else if k = ''dataTooLong'' then S\<lparr>dataTooLong := v\<rparr>
      else if k = ''emptyResponse'' then S\<lparr>emptyResponse := v\<rparr>
      else if k = ''unknownMessageType'' then S\<lparr>unknownMessageType := v\<rparr>
      else if k = ''errorOpeningDevice'' then S\<lparr>errorOpeningDevice := v\<rparr>
      else if k = ''errorSendingInit'' then S\<lparr>errorSendingInit := v\<rparr>
      else if k = ''errorClosingDevice'' then S\<lparr>errorClosingDevice := v\<rparr>
      else if k = ''errorReceivingFeatureReport'' then S\<lparr>errorReceivingFeatureReport := v\<rparr>
      else if k = ''errorSendingFeatureReport'' then S\<lparr>errorSendingFeatureReport := v\<rparr>
      else S)"

definition configureOtaLocale :: "OTAStrings \<Rightarrow> (string \<times> jsstring) list \<Rightarrow> OTAStrings" where
  "configureOtaLocale S overrides = foldl setString S overrides"

text \<open>
  \<open>fmt(template, vars)\<close> replaces every match of \<open>/\{(\w+)\}/g\<close> by
  \<open>String(vars[k] ?? '')\<close>. The scan remembers the word characters read since an
  opening brace. \<open>vars\<close> lists the own properties of the object literal that the
  caller passes; a key that is not among them is looked up on \<open>Object.prototype\<close>,
  whose properties are functions, but for the accessor \<open>__proto__\<close>, which yields the
  prototype object itself. The text of a built-in function is the engine's; it is given
  here as Chromium prints it, the engine that provides WebHID. Any other key is
  \<open>undefined\<close> and gives the empty string.
\<close>

definition isWordChar :: "16 word \<Rightarrow> bool" where
  "isWordChar u \<longleftrightarrow>
     (0x30 \<le> u \<and> u \<le> 0x39) \<or> (0x41 \<le> u \<and> u \<le> 0x5A) \<or> u = 0x5F \<or> (0x61 \<le> u \<and> u \<le> 0x7A)"

definition inheritedProperty :: "jsstring \<Rightarrow> jsstring option" where
  "inheritedProperty k =
     (if k = js ''__proto__'' then Some (js ''[object Object]'')
      else if k = js ''constructor'' then Some (js ''function Object() { [native code] }'')
      else if k \<in> set (map js
                [''__defineGetter__'', ''__defineSetter__'', ''hasOwnProperty'',
                 ''__lookupGetter__'', ''__lookupSetter__'', ''isPrototypeOf'',
                 ''propertyIsEnumerable'', ''toString'', ''valueOf'', ''toLocaleString''])
      then Some (js ''function '' @ k @ js ''() { [native code] }'')
      else None)"

definition lookupVar :: "(jsstring \<times> jsstring) list \<Rightarrow> jsstring \<Rightarrow> jsstring" where
  "lookupVar vars k =
     (case map_of vars k of
        Some v \<Rightarrow> v
      | None \<Rightarrow> (case inheritedProperty k of Some v \<Rightarrow> v | None \<Rightarrow> []))"

fun fmtScan :: "(jsstring \<times> jsstring) list \<Rightarrow> jsstring option \<Rightarrow> jsstring \<Rightarrow> jsstring" where
  "fmtScan vars None [] = []"
| "fmtScan vars (Some k) [] = 0x7B # k"
| "fmtScan vars None (c # cs) =
     (if c = 0x7B then fmtScan vars (Some []) cs else c # fmtScan vars None cs)"
| "fmtScan vars (Some k) (c # cs) =
     (if isWordChar c then fmtScan vars (Some (k @ [c])) cs
      else if c = 0x7D \<and> k \<noteq> [] then lookupVar vars k @ fmtScan vars None cs
      else if c = 0x7B then 0x7B # k @ fmtScan vars (Some []) cs
      else 0x7B # k @ c # fmtScan vars None cs)"

definition fmt :: "jsstring \<Rightarrow> (jsstring \<times> jsstring) list \<Rightarrow> jsstring" where
  "fmt template vars = fmtScan vars None template"

text \<open>\<open>String(msgType)\<close> for a number read by \<open>getUint8\<close>: its decimal digits.\<close>

fun decStr :: "nat \<Rightarrow> jsstring" where
  "decStr n = (if n < 10 then [of_nat (0x30 + n)] else decStr (n div 10) @ [of_nat (0x30 + n mod 10)])"

section \<open>Buffers\<close>

text \<open>
  A \<open>DataView\<close> is a window of \<open>byteLength\<close> bytes at \<open>byteOffset\<close> into a buffer.
  \<open>new Uint8Array(buffer, offset, length)\<close> and the \<open>DataView\<close> getters throw a
  \<open>RangeError\<close> outside their bounds; \<open>TypedArray.prototype.set\<close> throws it when the
  source does not fit at the offset.
\<close>

record DataView =
  buffer :: "byte list"
  byteOffset :: nat
  byteLength :: nat

definition newUint8Array :: "byte list \<Rightarrow> nat \<Rightarrow> nat \<Rightarrow> jserror + byte list" where
  "newUint8Array buf off len =
     (if off + len > length buf then Inl RangeError
      else Inr (take len (drop off buf)))"

definition getUint8 :: "DataView \<Rightarrow> nat \<Rightarrow> jserror + nat" where
  "getUint8 dv i =
     (if i + 1 > byteLength dv then Inl RangeError
      else Inr (unat (buffer dv ! (byteOffset dv + i))))"

definition getUint16LE :: "DataView \<Rightarrow> nat \<Rightarrow> jserror + nat" where
  "getUint16LE dv i =
     (if i + 2 > byteLength dv then Inl RangeError
      else Inr (unat (buffer dv ! (byteOffset dv + i)) + 0x100 * unat (buffer dv ! (byteOffset dv + i + 1))))"

definition u8set :: "byte list \<Rightarrow> byte list \<Rightarrow> nat \<Rightarrow> jserror + byte list" where
  "u8set target src off =
     (if off + length src > length target then Inl RangeError
      else Inr (take off target @ src @ drop (off + length src) target))"

section \<open>The transport\<close>

text \<open>
  The \<open>HIDDevice\<close> is an external collaborator. Its behaviour is given by scripts: the
  outcome of the n-th \<open>sendFeatureReport\<close> (\<open>None\<close> resolves, \<open>Some e\<close> rejects with a
  reason whose \<open>String\<close> is \<open>e\<close>), of the n-th \<open>receiveFeatureReport\<close> and of
  \<open>close\<close>. \<open>sent\<close> logs every report written (report id and bytes), also a
  rejected one; \<open>received\<close> counts the reads made.
\<close>

record HIDDevice =
  opened :: bool
  sendScript :: "nat \<Rightarrow> jsstring option"
  recvScript :: "nat \<Rightarrow> jsstring + DataView"
  closeScript :: "jsstring option"
  sent :: "(nat \<times> byte list) list"
  received :: nat

definition sendFeatureReport :: "HIDDevice \<Rightarrow> nat \<Rightarrow> byte list \<Rightarrow> jsstring option \<times> HIDDevice" where
  "sendFeatureReport d rid bytes = (sendScript d (length (sent d)), d\<lparr>sent := sent d @ [(rid, bytes)]\<rparr>)"

definition receiveFeatureReport :: "HIDDevice \<Rightarrow> nat \<Rightarrow> (jsstring + DataView) \<times> HIDDevice" where
  "receiveFeatureReport d rid = (recvScript d (received d), d\<lparr>received := Suc (received d)\<rparr>)"

definition closeDevice :: "HIDDevice \<Rightarrow> jsstring option \<times> HIDDevice" where
  "closeDevice d = (case closeScript d of None \<Rightarrow> (None, d\<lparr>opened := False\<rparr>) | Some e \<Rightarrow> (Some e, d))"

section \<open>The receiver: \<open>processFR\<close>\<close>

record reportResponse =
  error :: "jsstring option"
  data :: jsstring

text \<open>
  One pass of the loop body up to the \<open>switch\<close>: the payload view behind the 6-byte
  header, its decoded text, the declared length at index 4 (little-endian) and the message
  type at index 3; the text is cut to the declared length.
\<close>

definition decodeFR :: "DataView \<Rightarrow> jserror + (nat \<times> nat \<times> jsstring)" where
  "decodeFR dv =
     (case newUint8Array (buffer dv) (byteOffset dv + 6) (nat (max 0 (int (byteLength dv) - 6))) of
        Inl e \<Rightarrow> Inl e
      | Inr payloadView \<Rightarrow>
          (let decoded = TextDecoder_decode payloadView in
           case getUint16LE dv 4 of
             Inl e \<Rightarrow> Inl e
           | Inr reportLength \<Rightarrow>
               (case getUint8 dv 3 of
                  Inl e \<Rightarrow> Inl e
                | Inr msgType \<Rightarrow> Inr (msgType, reportLength, take (min reportLength (length decoded)) decoded))))"

text \<open>The \<open>switch\<close> on the message type; the result is the new \<open>remaining\<close> and response.\<close>

definition dispatch :: "OTAStrings \<Rightarrow> reportResponse \<Rightarrow> nat \<times> nat \<times> jsstring \<Rightarrow> nat \<times> reportResponse" where
  "dispatch S r f =
     (case f of (msgType, reportLength, d) \<Rightarrow>
        if msgType = 0 \<or> msgType = 1 then
          (nat (max 0 (int reportLength - int (length d))), r\<lparr>data := data r @ d\<rparr>)
        else if msgType = 2 then (0, r)
        else if msgType = 3 then (1, r)
        else if msgType = 4 then (0, r\<lparr>error := Some d\<rparr>)
        else if msgType = 5 then (0, r\<lparr>error := Some (emptyResponse S)\<rparr>)
        else if msgType = 6 then (0, r\<lparr>data := d\<rparr>)
        else (0, r\<lparr>error := Some (fmt (unknownMessageType S) [(js ''msgType'', decStr msgType)])\<rparr>))"

text \<open>
  \<open>while (remaining)\<close>: the loop has no bound of its own, so it is a partial function,
  and \<open>None\<close> is a loop that never returns. A result carries the device state, so that
  the reads made are visible also when the loop ends by a throw.
\<close>

partial_function (option) frLoop ::
  "OTAStrings \<Rightarrow> HIDDevice \<Rightarrow> nat \<Rightarrow> reportResponse \<Rightarrow> ((jserror + reportResponse) \<times> HIDDevice) option" where
  "frLoop S d remaining r =
     (if remaining = 0 then Some (Inr r, d)
      else
        (case receiveFeatureReport d 6 of
           (Inl e, d') \<Rightarrow> Some (Inl (Error (fmt (errorReceivingFeatureReport S) [(js ''error'', e)])), d')
         | (Inr dv, d') \<Rightarrow>
             (case decodeFR dv of
                Inl e \<Rightarrow> Some (Inl e, d')
              | Inr f \<Rightarrow> (case dispatch S r f of (remaining', r') \<Rightarrow> frLoop S d' remaining' r'))))"

text \<open>
  After the loop. \<open>JSON.parse\<close> is a parameter (\<open>None\<close>: it throws a \<open>SyntaxError\<close>).
  \<open>truthy\<close> is the test \<open>if (s)\<close> on a value that is a string, \<open>null\<close> or
  \<open>undefined\<close>. The value returned is the parsed JSON, or the empty text that was never
  parsed.
\<close>

datatype 'j reply = Text jsstring | Json 'j

definition truthy :: "jsstring option \<Rightarrow> bool" where
  "truthy s = (case s of None \<Rightarrow> False | Some t \<Rightarrow> t \<noteq> [])"

definition finishFR :: "(jsstring \<Rightarrow> 'j option) \<Rightarrow> reportResponse \<Rightarrow> jserror + 'j reply" where
  "finishFR parse r =
     (if length (data r) > 0 then
        (case parse (data r) of
           None \<Rightarrow> Inl SyntaxError
         | Some v \<Rightarrow> if truthy (error r) then Inl (Error (the (error r))) else Inr (Json v))
      else if truthy (error r) then Inl (Error (the (error r)))
      else Inr (Text (data r)))"

definition processFR ::
  "OTAStrings \<Rightarrow> (jsstring \<Rightarrow> 'j option) \<Rightarrow> HIDDevice option \<Rightarrow> ((jserror + 'j reply) \<times> HIDDevice option) option" where
  "processFR S parse dev =
     (case dev of
        None \<Rightarrow> Some (Inl (Error (noConnectedDevice S)), None)
      | Some d \<Rightarrow>
          if \<not> opened d then Some (Inl (Error (deviceNotOpened S)), Some d)
          else
            (case frLoop S d 1 \<lparr>error = None, data = []\<rparr> of
               None \<Rightarrow> None
             | Some (Inl e, d') \<Rightarrow> Some (Inl e, Some d')
             | Some (Inr r, d') \<Rightarrow> Some (finishFR parse r, Some d')))"

section \<open>The transmitter: \<open>otaSend\<close>\<close>

text \<open>
  The feature report of one chunk: 244 zero bytes, the 5-byte header written at 0 and the
  chunk at 5. \<open>remaining & 0xff\<close> and \<open>(remaining >> 8) & 0xff\<close> are stored as bytes.
\<close>

definition buildFR :: "nat \<Rightarrow> nat \<Rightarrow> byte list \<Rightarrow> jserror + byte list" where
  "buildFR msgType remaining chunk =
     (case u8set (replicate 244 0)
             [0x00, 0xFF, of_nat msgType, of_nat (remaining AND 0xff), of_nat (drop_bit 8 remaining AND 0xff)] 0 of
        Inl e \<Rightarrow> Inl e
      | Inr featureReport \<Rightarrow> u8set featureReport chunk 5)"

function sendLoop ::
  "OTAStrings \<Rightarrow> HIDDevice \<Rightarrow> byte list \<Rightarrow> nat \<Rightarrow> nat \<Rightarrow> jserror option \<times> HIDDevice" where
  "sendLoop S d bytes offset chunkIndex =
     (if offset < length bytes then
        (let remaining = length bytes - offset;
             chunkLen = min (244 - 5) remaining;
             msgType = (if chunkIndex = 0 then 0x00 else 0x01)
         in case buildFR msgType remaining (take chunkLen (drop offset bytes)) of
              Inl e \<Rightarrow> (Some e, d)
            | Inr featureReport \<Rightarrow>
                (case sendFeatureReport d 6 featureReport of
                   (Some e, d') \<Rightarrow>
                     (Some (Error (fmt (errorSendingFeatureReport S) [(js ''error'', e)])), d')
                 | (None, d') \<Rightarrow> sendLoop S d' bytes (offset + chunkLen) (chunkIndex + 1)))
      else (None, d))"
  by pat_completeness auto
termination
  by (relation "measure (\<lambda>(S, d, bytes, offset, chunkIndex). length bytes - offset)") auto

declare sendLoop.simps [simp del]

text \<open>
  \<open>otaSend(device, data)\<close>; \<open>device\<close> may be \<open>null\<close>. The precondition message is
  thrown only when it is truthy; with a \<open>null\<close> device and a falsy message the first
  write is a property read on \<open>null\<close>.
\<close>

definition otaSend ::
  "OTAStrings \<Rightarrow> (jsstring \<Rightarrow> 'j option) \<Rightarrow> HIDDevice option \<Rightarrow> jsstring \<Rightarrow> ((jserror + 'j reply) \<times> HIDDevice option) option" where
  "otaSend S parse dev text =
     (let err = (case dev of
                   None \<Rightarrow> Some (noConnectedDevice S)
                 | Some d \<Rightarrow>
                     if \<not> opened d then Some (deviceNotOpened S)
                     else if text = [] then Some (js ''No data'')
                     else None)
      in if truthy err then Some (Inl (Error (the err)), dev)
         else
           (let uint8Array = TextEncoder_encode text in
            case dev of
              None \<Rightarrow>
                if 0 < length uint8Array then Some (Inl TypeError, None)
                else processFR S parse None
            | Some d \<Rightarrow>
                (case sendLoop S d uint8Array 0 0 of
                   (Some e, d') \<Rightarrow> Some (Inl e, Some d')
                 | (None, d') \<Rightarrow> processFR S parse (Some d'))))"

section \<open>The session: \<open>otaClose\<close>\<close>

text \<open>
  The module state \<open>ota_g\<close>; \<open>device\<close> holds the reference to the active device, or
  \<open>null\<close>.
\<close>

record ota_state =
  hbTimeout :: nat
  device :: "nat option"

definition otaClose ::
  "OTAStrings \<Rightarrow> ota_state \<Rightarrow> HIDDevice option \<Rightarrow> jserror option \<times> ota_state \<times> HIDDevice option" where
  "otaClose S g dev =
     (case dev of
        None \<Rightarrow> (Some (Error (noDeviceSpecified S)), g, None)
      | Some d \<Rightarrow>
          (let g' = g\<lparr>device := None\<rparr> in
           if opened d then
             (case closeDevice d of
                (Some e, d') \<Rightarrow>
                  (Some (Error (fmt (errorClosingDevice S) [(js ''error'', e)])), g', Some d')
              | (None, d') \<Rightarrow> (None, g', Some d'))
           else (None, g', Some d)))"

section \<open>Observers and test transports\<close>

text \<open>
  The fields of an outgoing report, the report that chunk \<open>i\<close> of a message is expected
  to be, and the number of chunks of a message.
\<close>

definition lenField :: "byte list \<Rightarrow> nat" where
  "lenField fr = unat (fr ! 3) + 0x100 * unat (fr ! 4)"

definition typeField :: "byte list \<Rightarrow> nat" where
  "typeField fr = unat (fr ! 2)"

definition chunkFrame :: "byte list \<Rightarrow> nat \<Rightarrow> byte list" where
  "chunkFrame bytes i =
     (let remaining = length bytes - 239 * i;
          chunk = take 239 (drop (239 * i) bytes)
      in [0x00, 0xFF, (if i = 0 then 0x00 else 0x01),
          of_nat (remaining AND 0xff), of_nat (drop_bit 8 remaining AND 0xff)]
         @ chunk @ replicate (239 - length chunk) 0)"

definition nchunks :: "byte list \<Rightarrow> nat" where
  "nchunks bytes = (length bytes + 238) div 239"

text \<open>
  The incoming report that matches an outgoing one: the same bytes behind the report id,
  which puts the message type at index 3, the length at 4 and the payload at 6.
\<close>

definition asIncoming :: "byte list \<Rightarrow> DataView" where
  "asIncoming fr = \<lparr>buffer = 6 # fr, byteOffset = 0, byteLength = length fr + 1\<rparr>"

text \<open>
  An incoming report made of a message type, a declared length and payload bytes.
\<close>

definition incoming :: "nat \<Rightarrow> nat \<Rightarrow> byte list \<Rightarrow> DataView" where
  "incoming msgType len payload =
     \<lparr>buffer = [0x06, 0x00, 0xFF, of_nat msgType, of_nat (len mod 0x100), of_nat (len div 0x100)] @ payload,
      byteOffset = 0, byteLength = 6 + length payload\<rparr>"

text \<open>
  An open device that accepts every write and answers the reads with the given reports, in
  order; a read after the last one is rejected.
\<close>

definition mockDevice :: "DataView list \<Rightarrow> HIDDevice" where
  "mockDevice replies =
     \<lparr>opened = True,
      sendScript = (\<lambda>n. None),
      recvScript = (\<lambda>n. if n < length replies then Inr (replies ! n) else Inl (js ''NotAllowedError'')),
      closeScript = None,
      sent = [],
      received = 0\<rparr>"

section \<open>Facts about the codec on ASCII text\<close>

lemma scalars_no_surrogate: "\<forall>u\<in>set s. u < 0xD800 \<Longrightarrow> scalars s = map unat s"
proof (induction s rule: scalars.induct)
  case 1 show ?case by simp
next
  case (2 u)
  then have "\<not> 0xD800 \<le> u" by (simp add: word_le_nat_alt word_less_nat_alt)
  then show ?case by simp
next
  case (3 u v us)
  then have "\<not> 0xD800 \<le> u" by (simp add: word_le_nat_alt word_less_nat_alt)
  with 3 show ?case by simp
qed

lemma scalars_ascii: "\<forall>u\<in>set s. u < 0x80 \<Longrightarrow> scalars s = map unat s"
proof (rule scalars_no_surrogate, rule ballI)
  fix u assume "\<forall>u\<in>set s. u < 0x80" "u \<in> set s"
  then have "u < 0x80" by simp
  then show "u < 0xD800" by (simp add: word_less_nat_alt)
qed

lemma ascii_encode:
  assumes "\<forall>u\<in>set s. u < 0x80"
  shows "TextEncoder_encode s = map ucast s"
proof -
  have "concat (map utf8_bytes (map unat s)) = map ucast s" using assms
    by (induction s) (simp_all add: utf8_bytes_def word_less_nat_alt)
  with assms show ?thesis by (simp add: TextEncoder_encode_def scalars_ascii)
qed

lemma utf8_bytes_nonempty: "utf8_bytes c \<noteq> []"
  by (simp add: utf8_bytes_def)

lemma scalars_nonempty: "s \<noteq> [] \<Longrightarrow> scalars s \<noteq> []"
  by (induction s rule: scalars.induct) simp_all

lemma encode_nonempty: "s \<noteq> [] \<Longrightarrow> TextEncoder_encode s \<noteq> []"
  using scalars_nonempty[of s] utf8_bytes_nonempty
  by (cases "scalars s") (simp_all add: TextEncoder_encode_def)

lemma utf8_decode_ascii:
  "\<forall>b\<in>set bs. b < 0x80 \<Longrightarrow> utf8_decode 0 0 0 0x80 0xBF bs = map unat bs"
  by (induction bs) (auto simp: Let_def word_less_nat_alt)

lemma utf8_decode_zeros: "utf8_decode 0 0 0 0x80 0xBF (replicate n 0) = replicate n 0"
  by (induction n) (simp_all add: Let_def)

lemma ascii_decode:
  assumes "\<forall>b\<in>set bs. b < 0x80"
  shows "TextDecoder_decode bs = map ucast bs"
proof -
  have s: "stripBOM (map unat bs) = map unat bs" using assms
    by (cases bs) (auto simp: stripBOM_def word_less_nat_alt)
  have "concat (map utf16_units (map unat bs)) = map ucast bs" using assms
    by (induction bs) (simp_all add: utf16_units_def word_less_nat_alt)
  with assms s show ?thesis by (simp add: TextDecoder_decode_def utf8_decode_ascii)
qed

lemma ucast_ascii_roundtrip:
  assumes "(u::16 word) < 0x80"
  shows "ucast (ucast u :: byte) = u"
proof -
  from assms have lt: "unat u < 128" by (simp add: word_less_nat_alt)
  have "unat (ucast (ucast u :: byte) :: 16 word) = take_bit 16 (take_bit 8 (unat u))"
    by (simp add: unsigned_ucast_eq unsigned_take_bit_eq)
  also have "\<dots> = unat u" using lt by (simp add: take_bit_eq_mod)
  finally show ?thesis by (simp add: word_unat_eq_iff)
qed

section \<open>Facts about the transmitter\<close>

lemma and_255_nat: "(r::nat) AND 0xff = r mod 256"
proof -
  have "r AND mask 8 = take_bit 8 r" by (simp only: take_bit_eq_mask)
  then show ?thesis by (simp add: take_bit_eq_mod mask_eq_exp_minus_1)
qed

lemma lenField_arith:
  "unat (of_nat (r AND 0xff) :: byte) + 0x100 * unat (of_nat (drop_bit 8 r AND 0xff) :: byte) = r mod 65536"
proof -
  have "r mod 65536 = r mod (256 * 256)" by simp
  also have "\<dots> = r mod 256 + 256 * (r div 256 mod 256)" by (simp only: mod_mult2_eq)
  finally show ?thesis
    by (simp add: and_255_nat drop_bit_eq_div unat_of_nat)
qed

lemma buildFR_eq:
  assumes le: "length chunk \<le> 239"
  shows "buildFR t r chunk =
     Inr ([0x00, 0xFF, of_nat t, of_nat (r AND 0xff), of_nat (drop_bit 8 r AND 0xff)]
          @ chunk @ replicate (239 - length chunk) 0)"
proof -
  define hdr :: "byte list" where
    "hdr = [0x00, 0xFF, of_nat t, of_nat (r AND 0xff), of_nat (drop_bit 8 r AND 0xff)]"
  have lh: "length hdr = 5" by (simp add: hdr_def)
  have "(244::nat) = 5 + 239" by simp
  then have r: "replicate 244 (0::byte) = replicate 5 0 @ replicate 239 0"
    by (simp only: replicate_add)
  have s1: "u8set (replicate 244 0) hdr 0 = Inr (hdr @ replicate 239 0)"
    unfolding r u8set_def using lh by simp
  have "drop (5 + length chunk) (hdr @ replicate 239 0) = replicate (239 - length chunk) 0"
    using lh by simp
  then have s2: "u8set (hdr @ replicate 239 0) chunk 5 = Inr (hdr @ chunk @ replicate (239 - length chunk) 0)"
    unfolding u8set_def using lh le by simp
  show ?thesis
    unfolding buildFR_def hdr_def[symmetric] s1 using s2 by simp
qed

lemma nchunks_bounds: "j < nchunks bytes \<longleftrightarrow> 239 * j < length bytes"
  by (auto simp: nchunks_def)

lemma nchunks_pos: "bytes \<noteq> [] \<Longrightarrow> 0 < nchunks bytes"
  by (cases bytes) (simp_all add: nchunks_def)

lemma length_chunkFrame: "length (chunkFrame bytes j) = 244"
  by (simp add: chunkFrame_def Let_def)

lemma lenField_chunkFrame: "lenField (chunkFrame bytes i) = (length bytes - 239 * i) mod 65536"
  by (simp add: lenField_def chunkFrame_def Let_def lenField_arith)

lemma typeField_chunkFrame: "typeField (chunkFrame bytes i) = (if i = 0 then 0 else 1)"
  by (simp add: typeField_def chunkFrame_def Let_def)

lemma drop5_chunkFrame:
  "drop 5 (chunkFrame bytes j) =
     take 239 (drop (239 * j) bytes) @ replicate (239 - length (take 239 (drop (239 * j) bytes))) 0"
  by (simp add: chunkFrame_def Let_def)

text \<open>
  The reports written by the loop, started at chunk \<open>ci\<close>: a run of expected chunk
  reports, complete when no write was rejected; at least one when there are bytes left.
\<close>

lemma sendLoop_sent:
  "(if offset < length bytes then offset = 239 * ci else nchunks bytes \<le> ci) \<Longrightarrow>
   sendLoop S d bytes offset ci = (res, d') \<Longrightarrow>
   \<exists>k. d' = d\<lparr>sent := sent d @ map (\<lambda>j. (6, chunkFrame bytes j)) [ci..<ci + k]\<rparr>
     \<and> ci + k \<le> max ci (nchunks bytes)
     \<and> (res = None \<longrightarrow> ci + k = max ci (nchunks bytes))
     \<and> (offset < length bytes \<longrightarrow> 0 < k)"
proof (induction S d bytes offset ci arbitrary: res d' rule: sendLoop.induct)
  case (1 S d bytes offset chunkIndex)
  show ?case
  proof (cases "offset < length bytes")
    case False
    with 1(2) have "nchunks bytes \<le> chunkIndex" by simp
    moreover from False 1(3) have "res = None \<and> d' = d" by (subst (asm) sendLoop.simps) simp
    ultimately show ?thesis using False by (intro exI[of _ 0]) (auto simp: max_def)
  next
    case True
    with 1(2) have off: "offset = 239 * chunkIndex" by simp
    define remaining where "remaining = length bytes - offset"
    define chunkLen where "chunkLen = min (244 - 5) remaining"
    define chunk where "chunk = take chunkLen (drop offset bytes)"
    define fr where "fr = chunkFrame bytes chunkIndex"
    have clen: "length chunk = chunkLen" "chunkLen \<le> 239" "chunk = take 239 (drop offset bytes)"
      by (auto simp: chunk_def chunkLen_def remaining_def min_def)
    have b: "buildFR (if chunkIndex = 0 then 0x00 else 0x01) remaining chunk = Inr fr"
      using clen off by (simp add: buildFR_eq fr_def chunkFrame_def remaining_def Let_def)
    have lt: "chunkIndex < nchunks bytes" using True off by (simp add: nchunks_def)
    show ?thesis
    proof (cases "sendScript d (length (sent d))")
      case None
      let ?d1 = "d\<lparr>sent := sent d @ [(6, fr)]\<rparr>"
      have sf: "sendFeatureReport d 6 fr = (None, ?d1)" using None by (simp add: sendFeatureReport_def)
      have rec: "sendLoop S ?d1 bytes (offset + chunkLen) (chunkIndex + 1) = (res, d')"
        using 1(3) True b sf
        by (subst (asm) sendLoop.simps) (simp add: Let_def remaining_def chunkLen_def chunk_def)
      have inv: "if offset + chunkLen < length bytes then offset + chunkLen = 239 * (chunkIndex + 1)
                 else nchunks bytes \<le> chunkIndex + 1"
        using off True by (auto simp: chunkLen_def remaining_def min_def nchunks_def)
      from "1.IH"[OF True remaining_def chunkLen_def refl b[unfolded chunk_def] sf[symmetric] refl inv rec]
      obtain k where k: "d' = ?d1\<lparr>sent := sent ?d1 @ map (\<lambda>j. (6, chunkFrame bytes j)) [chunkIndex + 1..<chunkIndex + 1 + k]\<rparr>"
        "chunkIndex + 1 + k \<le> max (chunkIndex + 1) (nchunks bytes)"
        "res = None \<longrightarrow> chunkIndex + 1 + k = max (chunkIndex + 1) (nchunks bytes)"
        by blast
      have "[chunkIndex..<chunkIndex + (k + 1)] = chunkIndex # [chunkIndex + 1..<chunkIndex + 1 + k]"
        by (simp add: upt_conv_Cons)
      then have "d' = d\<lparr>sent := sent d @ map (\<lambda>j. (6, chunkFrame bytes j)) [chunkIndex..<chunkIndex + (k + 1)]\<rparr>"
        using k(1) by (simp add: fr_def)
      moreover have "chunkIndex + (k + 1) \<le> max chunkIndex (nchunks bytes)"
        using k(2) lt by (simp add: max_def)
      moreover have "res = None \<longrightarrow> chunkIndex + (k + 1) = max chunkIndex (nchunks bytes)"
        using k(3) lt by (auto simp: max_def)
      ultimately show ?thesis by (intro exI[of _ "k + 1"]) simp
    next
      case (Some e)
      have sf: "sendFeatureReport d 6 fr = (Some e, d\<lparr>sent := sent d @ [(6, fr)]\<rparr>)"
        using Some by (simp add: sendFeatureReport_def)
      have "res \<noteq> None \<and> d' = d\<lparr>sent := sent d @ [(6, fr)]\<rparr>"
        using 1(3) True b sf
        by (subst (asm) sendLoop.simps) (auto simp add: Let_def remaining_def chunkLen_def chunk_def)
      with lt show ?thesis by (intro exI[of _ 1]) (auto simp: fr_def)
    qed
  qed
qed

lemma sendLoop_from_start:
  assumes "sendLoop S d bytes 0 0 = (res, d')"
  shows "\<exists>k. d' = d\<lparr>sent := sent d @ map (\<lambda>j. (6, chunkFrame bytes j)) [0..<k]\<rparr>
     \<and> k \<le> nchunks bytes \<and> (res = None \<longrightarrow> k = nchunks bytes) \<and> (bytes \<noteq> [] \<longrightarrow> 0 < k)"
proof -
  have "if 0 < length bytes then 0 = 239 * (0::nat) else nchunks bytes \<le> 0"
    by (simp add: nchunks_def)
  from sendLoop_sent[OF this assms] show ?thesis by simp
qed

lemma sendLoop_accepting:
  "\<forall>n. sendScript d n = None \<Longrightarrow> fst (sendLoop S d bytes offset ci) = None"
proof (induction S d bytes offset ci rule: sendLoop.induct)
  case (1 S d bytes offset chunkIndex)
  show ?case
  proof (cases "offset < length bytes")
    case False then show ?thesis by (subst sendLoop.simps) simp
  next
    case True
    define chunkLen where "chunkLen = min (244 - 5) (length bytes - offset)"
    define chunk where "chunk = take chunkLen (drop offset bytes)"
    have "length chunk \<le> 239" by (simp add: chunk_def chunkLen_def)
    from buildFR_eq[OF this] obtain fr where
      b: "buildFR (if chunkIndex = 0 then 0x00 else 0x01) (length bytes - offset) chunk = Inr fr" by blast
    have sf: "sendFeatureReport d 6 fr = (None, d\<lparr>sent := sent d @ [(6, fr)]\<rparr>)"
      using 1(2) by (simp add: sendFeatureReport_def)
    have "\<forall>n. sendScript (d\<lparr>sent := sent d @ [(6, fr)]\<rparr>) n = None" using 1(2) by simp
    from "1.IH"[OF True refl chunkLen_def refl b[unfolded chunk_def] sf[symmetric] refl this]
    show ?thesis using True b sf
      by (subst sendLoop.simps) (simp add: Let_def chunkLen_def chunk_def)
  qed
qed

lemma sendLoop_all_accepted:
  assumes "\<forall>n. sendScript d n = None"
  shows "sendLoop S d bytes 0 0 =
     (None, d\<lparr>sent := sent d @ map (\<lambda>j. (6, chunkFrame bytes j)) [0..<nchunks bytes]\<rparr>)"
proof -
  obtain res d' where r: "sendLoop S d bytes 0 0 = (res, d')" by (cases "sendLoop S d bytes 0 0")
  with sendLoop_accepting[OF assms, of S bytes 0 0] have "res = None" by simp
  with sendLoop_from_start[OF r] r show ?thesis by auto
qed

section \<open>Facts about the receiver\<close>

lemma truthy_simps: "truthy None = False" "truthy (Some t) = (t \<noteq> [])"
  by (simp_all add: truthy_def)

lemma mockDevice_simps:
  "opened (mockDevice fs)" "sent (mockDevice fs) = []" "received (mockDevice fs) = 0"
  "sendScript (mockDevice fs) n = None" "closeScript (mockDevice fs) = None"
  "recvScript (mockDevice fs) n = (if n < length fs then Inr (fs ! n) else Inl (js ''NotAllowedError''))"
  by (simp_all add: mockDevice_def)

lemma decodeFR_short: "byteLength dv < 6 \<Longrightarrow> decodeFR dv = Inl RangeError"
  by (auto simp add: decodeFR_def getUint16LE_def newUint8Array_def split: sum.splits if_splits)

lemma frLoop_received_mono:
  assumes "frLoop S d remaining r = Some y"
  shows "received d \<le> received (snd y)"
proof (rule frLoop.raw_induct[where P = "\<lambda>S d remaining r y. received d \<le> received (snd y)", OF _ assms])
  fix f :: "OTAStrings \<Rightarrow> HIDDevice \<Rightarrow> nat \<Rightarrow> reportResponse \<Rightarrow> ((jserror + reportResponse) \<times> HIDDevice) option"
  fix S d remaining r y
  assume IH: "\<And>S d remaining r y. f S d remaining r = Some y \<Longrightarrow> received d \<le> received (snd y)"
  assume step: "(if remaining = 0 then Some (Inr r, d)
      else case receiveFeatureReport d 6 of
           (Inl e, d') \<Rightarrow> Some (Inl (Error (fmt (errorReceivingFeatureReport S) [(js ''error'', e)])), d')
           | (Inr dv, d') \<Rightarrow>
               (case decodeFR dv of Inl e \<Rightarrow> Some (Inl e, d')
               | Inr fr \<Rightarrow> (case dispatch S r fr of (remaining', r') \<Rightarrow> f S d' remaining' r'))) = Some y"
  show "received d \<le> received (snd y)"
  proof (cases "remaining = 0")
    case True with step show ?thesis by auto
  next
    case False
    with step show ?thesis
      by (auto simp: receiveFeatureReport_def split: sum.splits prod.splits dest!: IH)
  qed
qed

lemma frLoop_reads_once:
  "frLoop S d remaining r = Some y \<Longrightarrow> remaining \<noteq> 0 \<Longrightarrow> Suc (received d) \<le> received (snd y)"
  by (subst (asm) frLoop.simps)
     (auto simp: receiveFeatureReport_def split: sum.splits prod.splits dest!: frLoop_received_mono)

text \<open>What the receiver decodes from the incoming report that matches chunk \<open>j\<close>.\<close>

lemma decodeFR_asIncoming:
  "decodeFR (asIncoming (chunkFrame bytes j)) =
     (let r = (length bytes - 239 * j) mod 65536;
          dec = TextDecoder_decode (drop 5 (chunkFrame bytes j))
      in Inr (if j = 0 then 0 else 1, r, take (min r (length dec)) dec))"
proof -
  have n: "newUint8Array (6 # chunkFrame bytes j) 6 239 = Inr (drop 5 (chunkFrame bytes j))"
    by (simp add: newUint8Array_def length_chunkFrame)
  have l: "getUint16LE (asIncoming (chunkFrame bytes j)) 4 = Inr ((length bytes - 239 * j) mod 65536)"
    by (simp add: getUint16LE_def asIncoming_def length_chunkFrame)
       (simp add: chunkFrame_def Let_def lenField_arith)
  have t: "getUint8 (asIncoming (chunkFrame bytes j)) 3 = Inr (if j = 0 then 0 else 1)"
    by (simp add: getUint8_def asIncoming_def length_chunkFrame)
       (simp add: chunkFrame_def Let_def)
  have "decodeFR (asIncoming (chunkFrame bytes j)) =
     (case newUint8Array (6 # chunkFrame bytes j) 6 239 of
        Inl e \<Rightarrow> Inl e
      | Inr payloadView \<Rightarrow>
          (let decoded = TextDecoder_decode payloadView in
           case getUint16LE (asIncoming (chunkFrame bytes j)) 4 of
             Inl e \<Rightarrow> Inl e
           | Inr reportLength \<Rightarrow>
               (case getUint8 (asIncoming (chunkFrame bytes j)) 3 of
                  Inl e \<Rightarrow> Inl e
                | Inr msgType \<Rightarrow> Inr (msgType, reportLength, take (min reportLength (length decoded)) decoded))))"
    unfolding decodeFR_def by (simp add: asIncoming_def length_chunkFrame)
  then show ?thesis unfolding n l t by (simp add: Let_def)
qed

lemma decodeFR_asIncoming_ascii:
  assumes a: "\<forall>u\<in>set s. u < 0x80" and len: "length s \<le> 65535"
  shows "decodeFR (asIncoming (chunkFrame (TextEncoder_encode s) j)) =
     Inr (if j = 0 then 0 else 1, length s - 239 * j, take 239 (drop (239 * j) s))"
proof -
  let ?bytes = "TextEncoder_encode s"
  have enc: "?bytes = map ucast s" using a by (rule ascii_encode)
  let ?chunk = "take 239 (drop (239 * j) ?bytes)"
  let ?pay = "?chunk @ replicate (239 - length ?chunk) 0"
  have small: "\<forall>b\<in>set ?pay. b < 0x80"
  proof
    fix b assume "b \<in> set ?pay"
    then have "b \<in> set ?bytes \<or> b = 0" by (auto dest: in_set_takeD in_set_dropD)
    then show "b < 0x80"
    proof
      assume "b \<in> set ?bytes"
      then obtain u where u: "u \<in> set s" "b = ucast u" unfolding enc by auto
      with a have "u < 0x80" by simp
      then have "unat u < 128" by (simp add: word_less_nat_alt)
      moreover have "unat b = take_bit 8 (unat u)" using u(2)
        by (simp add: unsigned_ucast_eq unsigned_take_bit_eq)
      ultimately show ?thesis by (simp add: word_less_nat_alt take_bit_eq_mod)
    qed simp
  qed
  have "map ucast ?chunk = take 239 (drop (239 * j) (map (\<lambda>u. ucast (ucast u :: byte)) s))"
    unfolding enc by (simp add: take_map drop_map)
  also have "map (\<lambda>u. ucast (ucast u :: byte)) s = s"
    using a by (induction s) (simp_all add: ucast_ascii_roundtrip)
  finally have mc: "map ucast ?chunk = take 239 (drop (239 * j) s)" .
  have dec: "TextDecoder_decode ?pay = take 239 (drop (239 * j) s) @ replicate (239 - length ?chunk) 0"
    using ascii_decode[OF small] mc by simp
  have lb: "length ?bytes = length s" unfolding enc by simp
  have r: "(length s - 239 * j) mod 65536 = length s - 239 * j" using len by simp
  have ld: "length (TextDecoder_decode ?pay) = 239"
    by (subst dec) (simp add: lb min_def)
  have tk: "take (min (length s - 239 * j) 239) (TextDecoder_decode ?pay) = take 239 (drop (239 * j) s)"
    by (subst dec) (simp add: lb min_def)
  show ?thesis
    unfolding decodeFR_asIncoming drop5_chunkFrame Let_def lb r ld tk ..
qed

text \<open>
  The loop, fed the matching reports of an ASCII message from chunk \<open>j\<close> on with the
  first \<open>j\<close> chunks accumulated, returns the whole text after the last chunk.
\<close>

lemma frLoop_reassemble:
  assumes a: "\<forall>u\<in>set s. u < 0x80" and len: "length s \<le> 65535"
    and script: "\<forall>i<nchunks (TextEncoder_encode s).
                   recvScript d (base + i) = Inr (asIncoming (chunkFrame (TextEncoder_encode s) i))"
    and j: "j < nchunks (TextEncoder_encode s)" and rem: "remaining \<noteq> 0"
  shows "frLoop S (d\<lparr>received := base + j\<rparr>) remaining \<lparr>error = e, data = take (239 * j) s\<rparr>
         = Some (Inr \<lparr>error = e, data = s\<rparr>, d\<lparr>received := base + nchunks (TextEncoder_encode s)\<rparr>)"
  using j rem
proof (induction "nchunks (TextEncoder_encode s) - j" arbitrary: j remaining rule: less_induct)
  case less
  let ?n = "nchunks (TextEncoder_encode s)"
  have lb: "length (TextEncoder_encode s) = length s" using a by (simp add: ascii_encode)
  have jl: "239 * j < length s" using less.prems(1) by (simp add: nchunks_bounds lb)
  have rd: "receiveFeatureReport (d\<lparr>received := base + j\<rparr>) 6
              = (Inr (asIncoming (chunkFrame (TextEncoder_encode s) j)), d\<lparr>received := base + Suc j\<rparr>)"
    using script less.prems(1) by (simp add: receiveFeatureReport_def)
  have dec: "decodeFR (asIncoming (chunkFrame (TextEncoder_encode s) j)) =
     Inr (if j = 0 then 0 else 1, length s - 239 * j, take 239 (drop (239 * j) s))"
    using a len by (rule decodeFR_asIncoming_ascii)
  have tk: "take (239 * j) s @ take 239 (drop (239 * j) s) = take (239 * Suc j) s"
  proof -
    have "239 * Suc j = 239 * j + 239" by simp
    then show ?thesis by (simp only: take_add)
  qed
  have disp: "dispatch S \<lparr>error = e, data = take (239 * j) s\<rparr>
                (if j = 0 then 0 else 1, length s - 239 * j, take 239 (drop (239 * j) s))
              = (length s - 239 * Suc j, \<lparr>error = e, data = take (239 * Suc j) s\<rparr>)"
    using jl by (auto simp: dispatch_def tk min_def simp del: take_append)
  have step: "frLoop S (d\<lparr>received := base + j\<rparr>) remaining \<lparr>error = e, data = take (239 * j) s\<rparr>
      = frLoop S (d\<lparr>received := base + Suc j\<rparr>) (length s - 239 * Suc j) \<lparr>error = e, data = take (239 * Suc j) s\<rparr>"
    using less.prems(2) by (subst frLoop.simps) (simp add: rd dec disp)
  show ?case
  proof (cases "Suc j < ?n")
    case True
    then have "length s - 239 * Suc j \<noteq> 0" by (simp add: nchunks_bounds lb)
    with less.hyps[of "Suc j" "length s - 239 * Suc j"] True less.prems(1) step
    show ?thesis by simp
  next
    case False
    with less.prems(1) have eq: "Suc j = ?n" by simp
    from False have z: "length s - 239 * Suc j = 0" by (simp add: nchunks_bounds lb)
    then have "take (239 * Suc j) s = s" by simp
    with step z eq show ?thesis by (subst (asm) frLoop.simps) (simp del: mult_Suc_right)
  qed
qed

text \<open>
  Round trip of an ASCII message through the loops: the reports written, when all are
  accepted, fed back as the matching incoming reports.
\<close>

lemma frLoop_roundtrip:
  assumes "s \<noteq> []" and "\<forall>u\<in>set s. u < 0x80" and "length s \<le> 65535"
    and "sent d = []" and "sendLoop S d (TextEncoder_encode s) 0 0 = (None, d')"
    and "\<forall>i<length (sent d'). recvScript dR (received dR + i) = Inr (asIncoming (snd (sent d' ! i)))"
  shows "frLoop S dR 1 \<lparr>error = None, data = []\<rparr> =
           Some (Inr \<lparr>error = None, data = s\<rparr>, dR\<lparr>received := received dR + length (sent d')\<rparr>)"
proof -
  let ?bytes = "TextEncoder_encode s"
  from sendLoop_from_start[OF assms(5)] assms(4)
  have sd: "sent d' = map (\<lambda>j. (6, chunkFrame ?bytes j)) [0..<nchunks ?bytes]" by auto
  have "?bytes \<noteq> []" using assms(1) by (rule encode_nonempty)
  then have pos: "0 < nchunks ?bytes" by (rule nchunks_pos)
  have script: "\<forall>i<nchunks ?bytes. recvScript dR (received dR + i) = Inr (asIncoming (chunkFrame ?bytes i))"
    using assms(6) by (simp add: sd)
  from frLoop_reassemble[OF assms(2,3) script pos, of 1 S None]
  show ?thesis by (simp add: sd)
qed

lemma sendLoop_opened: "sendLoop S d bytes 0 0 = (res, d') \<Longrightarrow> opened d' = opened d"
  by (drule sendLoop_from_start) auto

section \<open>The claims\<close>

text \<open>
  C1 (as amended). Round trip for ASCII text: for every non-empty text of at most 65535
  code units, all below U+0080, when every write of the transmitter is accepted and the
  receiver is fed the incoming reports that match the reports written, the receive loop
  returns exactly the original text, with no error recorded, after one read per report.
\<close>

theorem chunking_roundtrip_ascii:
  assumes "s \<noteq> []" and "\<forall>u\<in>set s. u < 0x80" and "length s \<le> 65535"
    and "sent d = []" and "sendLoop S d (TextEncoder_encode s) 0 0 = (None, d')"
    and "\<forall>i<length (sent d'). recvScript dR (received dR + i) = Inr (asIncoming (snd (sent d' ! i)))"
  shows "frLoop S dR 1 \<lparr>error = None, data = []\<rparr> =
           Some (Inr \<lparr>error = None, data = s\<rparr>, dR\<lparr>received := received dR + length (sent d')\<rparr>)"
  using assms by (rule frLoop_roundtrip)

theorem chunking_roundtrip_ascii_witness:
  "frLoop defaultStrings
     (mockDevice (map (\<lambda>p. asIncoming (snd p))
        (sent (snd (sendLoop defaultStrings (mockDevice []) (TextEncoder_encode (js ''hb'')) 0 0)))))
     1 \<lparr>error = None, data = []\<rparr>
   = Some (Inr \<lparr>error = None, data = js ''hb''\<rparr>,
           mockDevice (map (\<lambda>p. asIncoming (snd p))
             (sent (snd (sendLoop defaultStrings (mockDevice []) (TextEncoder_encode (js ''hb'')) 0 0))))
           \<lparr>received := 1\<rparr>)"
proof -
  let ?d' = "snd (sendLoop defaultStrings (mockDevice []) (TextEncoder_encode (js ''hb'')) 0 0)"
  have a: "\<forall>u\<in>set (js ''hb''). u < 0x80" by (simp add: js_def)
  have s: "sendLoop defaultStrings (mockDevice []) (TextEncoder_encode (js ''hb'')) 0 0 = (None, ?d')"
    by (simp add: sendLoop_all_accepted mockDevice_simps)
  have e: "TextEncoder_encode (js ''hb'') = [0x68, 0x62]"
    by (simp add: TextEncoder_encode_def utf8_bytes_def js_def)
  have n: "length (sent ?d') = 1"
    by (simp add: sendLoop_all_accepted mockDevice_simps e nchunks_def)
  have r: "\<forall>i<length (sent ?d').
     recvScript (mockDevice (map (\<lambda>p. asIncoming (snd p)) (sent ?d')))
        (received (mockDevice (map (\<lambda>p. asIncoming (snd p)) (sent ?d'))) + i)
      = Inr (asIncoming (snd (sent ?d' ! i)))"
    by (simp add: mockDevice_simps)
  show ?thesis
    using chunking_roundtrip_ascii[OF _ a _ _ s r] n
    by (simp add: js_def mockDevice_simps)
qed

text \<open>
  The claim as stated fails on the one-character text U+00E9: its two UTF-8 bytes are
  declared as length 2, the receiver cuts the decoded, zero-padded payload to two code
  units, and the loop returns the character followed by U+0000.
\<close>

theorem chunking_roundtrip_counterexample:
  "frLoop defaultStrings
     (mockDevice (map (\<lambda>p. asIncoming (snd p))
        (sent (snd (sendLoop defaultStrings (mockDevice []) (TextEncoder_encode [0xE9]) 0 0)))))
     1 \<lparr>error = None, data = []\<rparr>
   = Some (Inr \<lparr>error = None, data = [0xE9, 0x00]\<rparr>,
           mockDevice (map (\<lambda>p. asIncoming (snd p))
             (sent (snd (sendLoop defaultStrings (mockDevice []) (TextEncoder_encode [0xE9]) 0 0))))
           \<lparr>received := 1\<rparr>)"
proof -
  have e: "TextEncoder_encode [0xE9] = [0xC3, 0xA9]"
    by (simp add: TextEncoder_encode_def utf8_bytes_def)
  have n: "nchunks [0xC3, 0xA9] = 1" by (simp add: nchunks_def)
  have p: "drop 5 (chunkFrame [0xC3, 0xA9] 0) = [0xC3, 0xA9] @ replicate 237 0"
    by (simp add: drop5_chunkFrame)
  have t: "TextDecoder_decode ([0xC3, 0xA9] @ replicate 237 0) = 0xE9 # replicate 237 0"
    by (simp add: TextDecoder_decode_def utf8_decode_zeros stripBOM_def utf16_units_def)
  have d: "decodeFR (asIncoming (chunkFrame [0xC3, 0xA9] 0)) = Inr (0, 2, [0xE9, 0x00])"
    unfolding decodeFR_asIncoming p t by (simp add: Let_def)
  show ?thesis
    unfolding e
    apply (simp add: sendLoop_all_accepted mockDevice_simps n)
    apply (subst frLoop.simps)
    apply (simp add: receiveFeatureReport_def mockDevice_simps d dispatch_def)
    apply (subst frLoop.simps)
    apply (simp add: mockDevice_def)
    done
qed

text \<open>
  C2 (as amended). For every non-empty command text, the 16-bit little-endian length field
  of each report written is the number of payload bytes not yet sent at the start of that
  chunk (the encoded length minus 239 bytes per earlier chunk) reduced modulo 65536, and
  it is that number itself whenever the encoded length is at most 65535.
\<close>

theorem header_declares_remaining_mod:
  assumes "sendLoop S d (TextEncoder_encode s) 0 0 = (res, d')" and "sent d = []" and "s \<noteq> []"
  shows "\<forall>i<length (sent d').
           lenField (snd (sent d' ! i)) = (length (TextEncoder_encode s) - 239 * i) mod 65536
         \<and> (length (TextEncoder_encode s) \<le> 65535 \<longrightarrow>
              lenField (snd (sent d' ! i)) = length (TextEncoder_encode s) - 239 * i)"
proof -
  from sendLoop_from_start[OF assms(1)] obtain k where
    "d' = d\<lparr>sent := sent d @ map (\<lambda>j. (6, chunkFrame (TextEncoder_encode s) j)) [0..<k]\<rparr>" by blast
  with assms(2) show ?thesis by (simp add: lenField_chunkFrame)
qed

theorem header_declares_remaining_mod_witness:
  "lenField (snd (sent (snd (sendLoop defaultStrings (mockDevice []) (TextEncoder_encode (replicate 240 0x61)) 0 0)) ! 1)) = 1"
proof -
  let ?out = "sendLoop defaultStrings (mockDevice []) (TextEncoder_encode (replicate 240 0x61)) 0 0"
  have e: "TextEncoder_encode (replicate 240 0x61) = replicate 240 0x61"
    by (subst ascii_encode) simp_all
  have n: "length (sent (snd ?out)) = 2"
    by (simp add: sendLoop_all_accepted mockDevice_simps e nchunks_def)
  have ne: "replicate 240 (0x61 :: 16 word) \<noteq> []" by simp
  from header_declares_remaining_mod[OF surjective_pairing mockDevice_simps(2) ne, of defaultStrings "[]"]
  show ?thesis using n by (simp add: e)
qed

text \<open>
  The claim as stated fails on a text of 65536 letters: 65536 bytes are unsent when the
  first chunk starts, and its length field is 0.
\<close>

theorem header_declares_remaining_counterexample:
  "length (TextEncoder_encode (replicate 65536 0x61)) - 0 = 65536 \<and>
   lenField (snd (sent (snd (sendLoop defaultStrings (mockDevice []) (TextEncoder_encode (replicate 65536 0x61)) 0 0)) ! 0)) = 0"
proof -
  have e: "TextEncoder_encode (replicate 65536 0x61) = replicate 65536 0x61"
    by (subst ascii_encode) simp_all
  have n: "0 < nchunks (replicate 65536 (0x61 :: byte))" by (simp add: nchunks_def)
  show ?thesis
    using n by (simp add: e sendLoop_all_accepted mockDevice_simps lenField_chunkFrame)
qed

text \<open>
  C3 (as amended). For every outgoing message of at most 65535 encoded bytes, the first
  chunk's header declares the full encoded byte length of the message and the header of
  every later chunk \<open>i\<close> declares the bytes still unsent at its start, the full length
  minus \<open>239 * i\<close>, which is strictly less. A message of at most 239 bytes is written
  as a single report. When every write is accepted, the message is written in as many
  reports as it has chunks of 239 bytes, so that a message of more than 239 bytes has a
  second header, declaring 239 less than the first: the declared length is the same in
  all headers exactly when the message has at most 239 bytes.
\<close>

theorem declared_length_first_chunk_only:
  assumes "sendLoop S d (TextEncoder_encode s) 0 0 = (res, d')" and "sent d = []" and "s \<noteq> []"
    and "length (TextEncoder_encode s) \<le> 65535"
  shows "sent d' \<noteq> []
       \<and> lenField (snd (sent d' ! 0)) = length (TextEncoder_encode s)
       \<and> (\<forall>i<length (sent d'). 0 < i \<longrightarrow>
             lenField (snd (sent d' ! i)) = length (TextEncoder_encode s) - 239 * i
           \<and> lenField (snd (sent d' ! i)) < length (TextEncoder_encode s))
       \<and> (length (TextEncoder_encode s) \<le> 239 \<longrightarrow> length (sent d') = 1)
       \<and> (res = None \<longrightarrow> length (sent d') = (length (TextEncoder_encode s) + 238) div 239)
       \<and> (res = None \<and> 239 < length (TextEncoder_encode s) \<longrightarrow>
             1 < length (sent d')
           \<and> lenField (snd (sent d' ! 1)) = length (TextEncoder_encode s) - 239
           \<and> lenField (snd (sent d' ! 1)) \<noteq> lenField (snd (sent d' ! 0)))
       \<and> (res = None \<longrightarrow>
             ((\<forall>i<length (sent d'). lenField (snd (sent d' ! i)) = length (TextEncoder_encode s))
              \<longleftrightarrow> length (TextEncoder_encode s) \<le> 239))"
proof -
  let ?bytes = "TextEncoder_encode s"
  let ?L = "length ?bytes"
  have ne: "?bytes \<noteq> []" using assms(3) by (rule encode_nonempty)
  from sendLoop_from_start[OF assms(1)] ne obtain k where
    k: "d' = d\<lparr>sent := sent d @ map (\<lambda>j. (6, chunkFrame ?bytes j)) [0..<k]\<rparr>"
       "k \<le> nchunks ?bytes" "0 < k" "res = None \<longrightarrow> k = nchunks ?bytes" by blast
  have sd: "sent d' = map (\<lambda>j. (6, chunkFrame ?bytes j)) [0..<k]" using k(1) assms(2) by simp
  have len: "length (sent d') = k" by (simp add: sd)
  have fld: "lenField (snd (sent d' ! i)) = ?L - 239 * i" if "i < k" for i
    using that assms(4) by (simp add: sd lenField_chunkFrame)
  have pos: "0 < ?L" using ne by simp
  have c1: "sent d' \<noteq> []" using k(3) len by auto
  have c2: "lenField (snd (sent d' ! 0)) = ?L" using fld[OF k(3)] by simp
  have c3: "\<forall>i<length (sent d'). 0 < i \<longrightarrow>
             lenField (snd (sent d' ! i)) = ?L - 239 * i \<and> lenField (snd (sent d' ! i)) < ?L"
  proof (intro allI impI)
    fix i assume "i < length (sent d')" "0 < i"
    then have "i < k" by (simp add: len)
    from fld[OF this] pos \<open>0 < i\<close>
    show "lenField (snd (sent d' ! i)) = ?L - 239 * i \<and> lenField (snd (sent d' ! i)) < ?L"
      by simp
  qed
  have c4: "?L \<le> 239 \<longrightarrow> length (sent d') = 1"
    using k(2,3) by (auto simp: nchunks_def len)
  have c5: "res = None \<longrightarrow> length (sent d') = (?L + 238) div 239"
    using k(4) by (simp add: len nchunks_def)
  have two: "1 < k" if "res = None" "239 < ?L"
  proof -
    from that(1) k(4) have "k = nchunks ?bytes" by simp
    moreover from that(2) have "1 < nchunks ?bytes" by (simp add: nchunks_bounds)
    ultimately show ?thesis by simp
  qed
  have c6: "res = None \<and> 239 < ?L \<longrightarrow>
             1 < length (sent d')
           \<and> lenField (snd (sent d' ! 1)) = ?L - 239
           \<and> lenField (snd (sent d' ! 1)) \<noteq> lenField (snd (sent d' ! 0))"
  proof
    assume h: "res = None \<and> 239 < ?L"
    then have k1: "1 < k" using two by blast
    from fld[OF k1] have f1: "lenField (snd (sent d' ! 1)) = ?L - 239" by simp
    with c2 h have "lenField (snd (sent d' ! 1)) \<noteq> lenField (snd (sent d' ! 0))" by auto
    with k1 f1 show "1 < length (sent d')
           \<and> lenField (snd (sent d' ! 1)) = ?L - 239
           \<and> lenField (snd (sent d' ! 1)) \<noteq> lenField (snd (sent d' ! 0))"
      by (simp add: len)
  qed
  have c7: "res = None \<longrightarrow>
             ((\<forall>i<length (sent d'). lenField (snd (sent d' ! i)) = ?L) \<longleftrightarrow> ?L \<le> 239)"
  proof (intro impI iffI)
    assume r: "res = None" and all: "\<forall>i<length (sent d'). lenField (snd (sent d' ! i)) = ?L"
    show "?L \<le> 239"
    proof (rule ccontr)
      assume "\<not> ?L \<le> 239"
      then have big: "239 < ?L" by simp
      with r c6 have "1 < length (sent d')" "lenField (snd (sent d' ! 1)) = ?L - 239" by blast+
      with all big show False by auto
    qed
  next
    assume "?L \<le> 239"
    with c4 have "length (sent d') = 1" by blast
    with c2 show "\<forall>i<length (sent d'). lenField (snd (sent d' ! i)) = ?L" by simp
  qed
  from c1 c2 c3 c4 c5 c6 c7 show ?thesis by blast
qed

theorem declared_length_first_chunk_only_witness:
  "lenField (snd (sent (snd (sendLoop defaultStrings (mockDevice []) (TextEncoder_encode (js ''hb'')) 0 0)) ! 0)) = 2
   \<and> length (sent (snd (sendLoop defaultStrings (mockDevice []) (TextEncoder_encode (js ''hb'')) 0 0))) = 1
   \<and> length (sent (snd (sendLoop defaultStrings (mockDevice [])
                           (TextEncoder_encode (replicate 240 0x61)) 0 0))) = 2
   \<and> lenField (snd (sent (snd (sendLoop defaultStrings (mockDevice [])
                                 (TextEncoder_encode (replicate 240 0x61)) 0 0)) ! 0)) = 240
   \<and> lenField (snd (sent (snd (sendLoop defaultStrings (mockDevice [])
                                 (TextEncoder_encode (replicate 240 0x61)) 0 0)) ! 1)) = 1"
proof -
  have e: "TextEncoder_encode (js ''hb'') = [0x68, 0x62]"
    by (simp add: TextEncoder_encode_def utf8_bytes_def js_def)
  have ne: "js ''hb'' \<noteq> []" by (simp add: js_def)
  have le: "length (TextEncoder_encode (js ''hb'')) \<le> 65535" by (simp add: e)
  from declared_length_first_chunk_only[OF surjective_pairing mockDevice_simps(2) ne le, of defaultStrings "[]"]
  have short: "lenField (snd (sent (snd (sendLoop defaultStrings (mockDevice []) (TextEncoder_encode (js ''hb'')) 0 0)) ! 0)) = 2
     \<and> length (sent (snd (sendLoop defaultStrings (mockDevice []) (TextEncoder_encode (js ''hb'')) 0 0))) = 1"
    by (simp add: e)
  let ?out = "sendLoop defaultStrings (mockDevice []) (TextEncoder_encode (replicate 240 0x61)) 0 0"
  have e2: "TextEncoder_encode (replicate 240 0x61) = replicate 240 0x61"
    by (subst ascii_encode) simp_all
  have l2: "length (TextEncoder_encode (replicate 240 0x61)) = 240" by (simp add: e2)
  have ne2: "replicate 240 (0x61 :: 16 word) \<noteq> []" by simp
  have le2: "length (TextEncoder_encode (replicate 240 0x61)) \<le> 65535" by (simp add: l2)
  have acc: "fst ?out = None" by (rule sendLoop_accepting) (simp add: mockDevice_simps)
  have big: "239 < length (TextEncoder_encode (replicate 240 0x61))" by (simp add: l2)
  note t = declared_length_first_chunk_only[OF surjective_pairing mockDevice_simps(2) ne2 le2, of defaultStrings "[]"]
  from t have "lenField (snd (sent (snd ?out) ! 0)) = length (TextEncoder_encode (replicate 240 0x61))"
    by blast
  then have first: "lenField (snd (sent (snd ?out) ! 0)) = 240" by (simp only: l2)
  from t acc have "length (sent (snd ?out)) = (length (TextEncoder_encode (replicate 240 0x61)) + 238) div 239"
    by blast
  then have cnt: "length (sent (snd ?out)) = 2" by (simp add: l2)
  from t acc big have "lenField (snd (sent (snd ?out) ! 1)) = length (TextEncoder_encode (replicate 240 0x61)) - 239"
    by blast
  then have second: "lenField (snd (sent (snd ?out) ! 1)) = 1" by (simp add: l2)
  from short cnt first second show ?thesis by blast
qed

text \<open>
  The claim as stated fails on a message of 240 bytes: its two headers declare 240 and 1.
\<close>

theorem declared_length_fixed_counterexample:
  "map (\<lambda>p. lenField (snd p))
     (sent (snd (sendLoop defaultStrings (mockDevice []) (TextEncoder_encode (replicate 240 0x61)) 0 0)))
   = [240, 1]"
proof -
  have e: "TextEncoder_encode (replicate 240 0x61) = replicate 240 0x61"
    by (subst ascii_encode) simp_all
  have n: "nchunks (replicate 240 (0x61 :: byte)) = 2" by (simp add: nchunks_def)
  have u: "[0..<2] = [0, Suc 0]" by (simp add: upt_rec)
  show ?thesis
    by (simp add: e sendLoop_all_accepted mockDevice_simps n u lenField_chunkFrame)
qed

text \<open>
  C4 (as amended). Sending a payload of exactly 500 bytes, every write accepted, writes
  exactly 3 reports: FIRST, MID, MID, declaring 500, 261 and 22, with payload chunks of
  239, 239 and 22 bytes, the last one zero-padded. When the payload is ASCII text, the
  receiver fed the matching incoming reports accumulates exactly the 500 characters of
  the text and leaves its loop after the third read.
\<close>

theorem multi_frame_500:
  assumes "length (TextEncoder_encode s) = 500" and "sent d = []"
    and "sendLoop S d (TextEncoder_encode s) 0 0 = (None, d')"
    and "\<forall>i<length (sent d'). recvScript dR (received dR + i) = Inr (asIncoming (snd (sent d' ! i)))"
  shows "sent d' =
           [(6, [0x00, 0xFF, 0x00, 0xF4, 0x01] @ take 239 (TextEncoder_encode s)),
            (6, [0x00, 0xFF, 0x01, 0x05, 0x01] @ take 239 (drop 239 (TextEncoder_encode s))),
            (6, [0x00, 0xFF, 0x01, 0x16, 0x00] @ drop 478 (TextEncoder_encode s) @ replicate 217 0)]
       \<and> map (\<lambda>p. typeField (snd p)) (sent d') = [0, 1, 1]
       \<and> map (\<lambda>p. lenField (snd p)) (sent d') = [500, 261, 22]
       \<and> [length (take 239 (TextEncoder_encode s)), length (take 239 (drop 239 (TextEncoder_encode s))),
           length (drop 478 (TextEncoder_encode s))] = [239, 239, 22]
       \<and> ((\<forall>u\<in>set s. u < 0x80) \<longrightarrow>
             length s = 500 \<and>
             frLoop S dR 1 \<lparr>error = None, data = []\<rparr> =
               Some (Inr \<lparr>error = None, data = s\<rparr>, dR\<lparr>received := received dR + 3\<rparr>))"
proof -
  let ?b = "TextEncoder_encode s"
  have n: "nchunks ?b = 3" using assms(1) by (simp add: nchunks_def)
  have u: "[0..<3] = [0, 1, 2]" by (simp add: upt_rec)
  from sendLoop_from_start[OF assms(3)] assms(2)
  have sd: "sent d' = map (\<lambda>j. (6, chunkFrame ?b j)) [0, 1, 2]" by (auto simp: n u)
  have f0: "chunkFrame ?b 0 = [0x00, 0xFF, 0x00, 0xF4, 0x01] @ take 239 ?b"
    using assms(1) by (simp add: chunkFrame_def Let_def and_255_nat drop_bit_eq_div)
  have f1: "chunkFrame ?b 1 = [0x00, 0xFF, 0x01, 0x05, 0x01] @ take 239 (drop 239 ?b)"
    using assms(1) by (simp add: chunkFrame_def Let_def and_255_nat drop_bit_eq_div)
  have f2: "chunkFrame ?b 2 = [0x00, 0xFF, 0x01, 0x16, 0x00] @ drop 478 ?b @ replicate 217 0"
    using assms(1) by (simp add: chunkFrame_def Let_def and_255_nat drop_bit_eq_div)
  have frames: "sent d' =
           [(6, [0x00, 0xFF, 0x00, 0xF4, 0x01] @ take 239 ?b),
            (6, [0x00, 0xFF, 0x01, 0x05, 0x01] @ take 239 (drop 239 ?b)),
            (6, [0x00, 0xFF, 0x01, 0x16, 0x00] @ drop 478 ?b @ replicate 217 0)]"
    unfolding sd by (simp only: list.map f0 f1 f2)
  have types: "map (\<lambda>p. typeField (snd p)) (sent d') = [0, 1, 1]"
    unfolding sd by (simp add: typeField_chunkFrame)
  have lens: "map (\<lambda>p. lenField (snd p)) (sent d') = [500, 261, 22]"
    unfolding sd using assms(1) by (simp add: lenField_chunkFrame)
  have chunks: "[length (take 239 ?b), length (take 239 (drop 239 ?b)), length (drop 478 ?b)] = [239, 239, 22]"
    using assms(1) by simp
  have recv: "(\<forall>u\<in>set s. u < 0x80) \<longrightarrow>
             length s = 500 \<and>
             frLoop S dR 1 \<lparr>error = None, data = []\<rparr> =
               Some (Inr \<lparr>error = None, data = s\<rparr>, dR\<lparr>received := received dR + 3\<rparr>)"
  proof
    assume a: "\<forall>u\<in>set s. u < 0x80"
    have l: "length s = 500" using assms(1) a by (simp add: ascii_encode)
    then have ne: "s \<noteq> []" and le: "length s \<le> 65535" by auto
    have "length (sent d') = 3" unfolding sd by simp
    with frLoop_roundtrip[OF ne a le assms(2,3,4)] l
    show "length s = 500 \<and>
             frLoop S dR 1 \<lparr>error = None, data = []\<rparr> =
               Some (Inr \<lparr>error = None, data = s\<rparr>, dR\<lparr>received := received dR + 3\<rparr>)"
      by simp
  qed
  from frames types lens chunks recv show ?thesis by blast
qed

theorem multi_frame_500_witness:
  "map (\<lambda>p. lenField (snd p))
     (sent (snd (sendLoop defaultStrings (mockDevice []) (TextEncoder_encode (replicate 500 0x61)) 0 0)))
     = [500, 261, 22]
   \<and> frLoop defaultStrings
       (mockDevice (map (\<lambda>p. asIncoming (snd p))
          (sent (snd (sendLoop defaultStrings (mockDevice []) (TextEncoder_encode (replicate 500 0x61)) 0 0)))))
       1 \<lparr>error = None, data = []\<rparr>
     = Some (Inr \<lparr>error = None, data = replicate 500 0x61\<rparr>,
           mockDevice (map (\<lambda>p. asIncoming (snd p))
             (sent (snd (sendLoop defaultStrings (mockDevice []) (TextEncoder_encode (replicate 500 0x61)) 0 0))))
           \<lparr>received := 3\<rparr>)"
proof -
  let ?d' = "snd (sendLoop defaultStrings (mockDevice []) (TextEncoder_encode (replicate 500 0x61)) 0 0)"
  let ?dR = "mockDevice (map (\<lambda>p. asIncoming (snd p)) (sent ?d'))"
  have a: "\<forall>u\<in>set (replicate 500 (0x61 :: 16 word)). u < 0x80" by simp
  have e: "length (TextEncoder_encode (replicate 500 0x61)) = 500"
    by (subst ascii_encode) simp_all
  have s: "sendLoop defaultStrings (mockDevice []) (TextEncoder_encode (replicate 500 0x61)) 0 0 = (None, ?d')"
    by (simp add: sendLoop_all_accepted mockDevice_simps)
  have r: "\<forall>i<length (sent ?d'). recvScript ?dR (received ?dR + i) = Inr (asIncoming (snd (sent ?d' ! i)))"
    by (simp add: mockDevice_simps)
  have rc: "received ?dR + 3 = 3" by (simp add: mockDevice_simps)
  note m = multi_frame_500[OF e mockDevice_simps(2) s r]
  from m have lens: "map (\<lambda>p. lenField (snd p)) (sent ?d') = [500, 261, 22]" by blast
  from m a have "frLoop defaultStrings ?dR 1 \<lparr>error = None, data = []\<rparr> =
      Some (Inr \<lparr>error = None, data = replicate 500 0x61\<rparr>, ?dR\<lparr>received := received ?dR + 3\<rparr>)"
    by blast
  then have "frLoop defaultStrings ?dR 1 \<lparr>error = None, data = []\<rparr> =
      Some (Inr \<lparr>error = None, data = replicate 500 0x61\<rparr>, ?dR\<lparr>received := 3\<rparr>)"
    unfolding rc .
  with lens show ?thesis by (rule conjI)
qed

text \<open>
  The claim as stated fails on the 500-byte payload of 250 letters U+00E9: the chunk
  boundaries split two of the 2-byte sequences and the last report is cut at 22 code
  units, so that the receiver accumulates 262 code units, among them two U+FFFD and
  eleven U+0000, in place of the 250 letters.
\<close>

theorem multi_frame_500_counterexample:
  "length (TextEncoder_encode (replicate 250 0xE9)) = 500 \<and>
   frLoop defaultStrings
     (mockDevice (map (\<lambda>p. asIncoming (snd p))
        (sent (snd (sendLoop defaultStrings (mockDevice []) (TextEncoder_encode (replicate 250 0xE9)) 0 0)))))
     1 \<lparr>error = None, data = []\<rparr>
   = Some (Inr \<lparr>error = None,
                data = replicate 119 0xE9 @ [0xFFFD] @ [0xFFFD] @ replicate 119 0xE9
                       @ replicate 11 0xE9 @ replicate 11 0x00\<rparr>,
           mockDevice (map (\<lambda>p. asIncoming (snd p))
             (sent (snd (sendLoop defaultStrings (mockDevice []) (TextEncoder_encode (replicate 250 0xE9)) 0 0))))
           \<lparr>received := 3\<rparr>)"
proof -
  define E :: "nat \<Rightarrow> byte list" where "E n = concat (replicate n [0xC3, 0xA9])" for n
  have Elen: "length (E n) = 2 * n" for n by (induction n) (simp_all add: E_def)
  have Eadd: "E (m + n) = E m @ E n" for m n by (simp add: E_def replicate_add)
  have E1: "E 1 = [0xC3, 0xA9]" by (simp add: E_def)
  have enc: "TextEncoder_encode (replicate 250 0xE9) = E 250"
  proof -
    have "\<forall>u\<in>set (replicate 250 (0xE9 :: 16 word)). u < 0xD800" by simp
    then have "scalars (replicate 250 0xE9) = replicate 250 233" by (simp add: scalars_no_surrogate)
    moreover have "concat (map utf8_bytes (replicate n 233)) = E n" for n
      by (induction n) (simp_all add: E_def utf8_bytes_def)
    ultimately show ?thesis by (simp add: TextEncoder_encode_def)
  qed
  have "(250::nat) = 119 + (1 + (119 + 11))" by simp
  then have split: "E 250 = E 119 @ [0xC3, 0xA9] @ E 119 @ E 11"
    by (simp only: Eadd E1)
  have c0: "take 239 (drop (239 * 0) (E 250)) = E 119 @ [0xC3]"
    unfolding split by (simp add: Elen)
  have c1: "take 239 (drop (239 * 1) (E 250)) = 0xA9 # E 119"
    unfolding split by (simp add: Elen)
  have c2: "take 239 (drop (239 * 2) (E 250)) = E 11"
    unfolding split by (simp add: Elen)
  have D: "utf8_decode 0 0 0 0x80 0xBF (E n @ rest) = replicate n 233 @ utf8_decode 0 0 0 0x80 0xBF rest"
    for n rest by (induction n) (simp_all add: E_def Let_def)
  have U: "concat (map utf16_units (replicate n 233 @ cs)) = replicate n 0xE9 @ concat (map utf16_units cs)"
    for n cs by (induction n) (simp_all add: utf16_units_def)
  have B: "stripBOM (replicate (Suc n) 233 @ cs) = replicate (Suc n) 233 @ cs" for n cs
    by (simp add: stripBOM_def)
  have B': "stripBOM (65533 # cs) = 65533 # cs" for cs
    by (simp add: stripBOM_def)
  have t0: "TextDecoder_decode (E 119 @ [0xC3]) = replicate 119 0xE9 @ [0xFFFD]"
  proof -
    have "utf8_decode 0 0 0 0x80 0xBF (E 119 @ [0xC3]) = replicate (Suc 118) 233 @ [65533]"
      by (simp add: D Let_def)
    then show ?thesis
      by (simp only: TextDecoder_decode_def B U) (simp add: utf16_units_def)
  qed
  have t1: "TextDecoder_decode (0xA9 # E 119) = 0xFFFD # replicate 119 0xE9"
  proof -
    have "utf8_decode 0 0 0 0x80 0xBF (0xA9 # E 119 @ []) = 65533 # replicate 119 233 @ []"
      by (simp add: D Let_def del: append_Nil2)
    then have "utf8_decode 0 0 0 0x80 0xBF (0xA9 # E 119) = 65533 # (replicate 119 233 @ [])" by simp
    then show ?thesis
      by (simp only: TextDecoder_decode_def B' list.map concat.simps U) (simp add: utf16_units_def)
  qed
  have t2: "TextDecoder_decode (E 11 @ replicate 217 0) = replicate 11 0xE9 @ replicate 217 0"
  proof -
    have "utf8_decode 0 0 0 0x80 0xBF (E 11 @ replicate 217 0) = replicate (Suc 10) 233 @ replicate 217 0"
      by (simp add: D utf8_decode_zeros)
    moreover have "concat (map utf16_units (replicate n 0)) = replicate n 0" for n
      by (induction n) (simp_all add: utf16_units_def)
    ultimately show ?thesis
      by (simp only: TextDecoder_decode_def B U) simp
  qed
  have l: "length (E 250) = 500" by (simp add: Elen)
  have d0: "decodeFR (asIncoming (chunkFrame (E 250) 0)) = Inr (0, 500, replicate 119 0xE9 @ [0xFFFD])"
    unfolding decodeFR_asIncoming drop5_chunkFrame c0 l
    by (simp add: Elen t0 Let_def)
  have d1: "decodeFR (asIncoming (chunkFrame (E 250) 1)) = Inr (1, 261, 0xFFFD # replicate 119 0xE9)"
    unfolding decodeFR_asIncoming drop5_chunkFrame c1 l
    by (simp add: Elen t1 Let_def)
  have d1': "decodeFR (asIncoming (chunkFrame (E 250) (Suc 0))) = Inr (1, 261, 0xFFFD # replicate 119 0xE9)"
    using d1 by simp
  have d2: "decodeFR (asIncoming (chunkFrame (E 250) 2)) = Inr (1, 22, replicate 11 0xE9 @ replicate 11 0)"
    unfolding decodeFR_asIncoming drop5_chunkFrame c2 l
    by (simp add: Elen t2 Let_def)
  have n: "nchunks (E 250) = 3" by (simp add: nchunks_def l)
  have u: "[0..<3] = [0, 1, 2]" by (simp add: upt_rec)
  let ?dR = "mockDevice [asIncoming (chunkFrame (E 250) 0), asIncoming (chunkFrame (E 250) 1),
                         asIncoming (chunkFrame (E 250) 2)]"
  have fr: "map (\<lambda>p. asIncoming (snd p))
        (sent (snd (sendLoop defaultStrings (mockDevice []) (E 250) 0 0)))
      = [asIncoming (chunkFrame (E 250) 0), asIncoming (chunkFrame (E 250) 1),
         asIncoming (chunkFrame (E 250) 2)]"
    by (simp add: sendLoop_all_accepted mockDevice_simps n u)
  have s0: "frLoop defaultStrings ?dR 1 \<lparr>error = None, data = []\<rparr> =
            frLoop defaultStrings (?dR\<lparr>received := 1\<rparr>) 380 \<lparr>error = None, data = replicate 119 0xE9 @ [0xFFFD]\<rparr>"
    by (subst frLoop.simps) (simp add: receiveFeatureReport_def mockDevice_simps d0 dispatch_def)
  have s1: "frLoop defaultStrings (?dR\<lparr>received := 1\<rparr>) 380 \<lparr>error = None, data = replicate 119 0xE9 @ [0xFFFD]\<rparr> =
            frLoop defaultStrings (?dR\<lparr>received := 2\<rparr>) 141
              \<lparr>error = None, data = replicate 119 0xE9 @ [0xFFFD] @ [0xFFFD] @ replicate 119 0xE9\<rparr>"
    by (subst frLoop.simps) (simp add: receiveFeatureReport_def mockDevice_simps d1' dispatch_def numeral_2_eq_2[symmetric])
  have s2: "frLoop defaultStrings (?dR\<lparr>received := 2\<rparr>) 141
              \<lparr>error = None, data = replicate 119 0xE9 @ [0xFFFD] @ [0xFFFD] @ replicate 119 0xE9\<rparr> =
            frLoop defaultStrings (?dR\<lparr>received := 3\<rparr>) 0
              \<lparr>error = None, data = replicate 119 0xE9 @ [0xFFFD] @ [0xFFFD] @ replicate 119 0xE9
                       @ replicate 11 0xE9 @ replicate 11 0x00\<rparr>"
    by (subst frLoop.simps) (simp add: receiveFeatureReport_def mockDevice_simps d2 dispatch_def)
  have s3: "frLoop defaultStrings (?dR\<lparr>received := 3\<rparr>) 0
              \<lparr>error = None, data = replicate 119 0xE9 @ [0xFFFD] @ [0xFFFD] @ replicate 119 0xE9
                       @ replicate 11 0xE9 @ replicate 11 0x00\<rparr>
            = Some (Inr \<lparr>error = None, data = replicate 119 0xE9 @ [0xFFFD] @ [0xFFFD] @ replicate 119 0xE9
                       @ replicate 11 0xE9 @ replicate 11 0x00\<rparr>, ?dR\<lparr>received := 3\<rparr>)"
    by (subst frLoop.simps) simp
  show ?thesis
    unfolding enc fr using l s0 s1 s2 s3 by simp
qed

text \<open>
  Where the code throws the recorded error: a recorded message that is not the empty string is
  thrown, provided the accumulated payload is empty or the JSON parser accepts it.
\<close>

lemma recorded_nonempty_error_fails_exchange:
  assumes "opened d" and "s \<noteq> []"
    and "sendLoop S d (TextEncoder_encode s) 0 0 = (None, d1)"
    and "frLoop S d1 1 \<lparr>error = None, data = []\<rparr> = Some (Inr r, d2)"
    and "error r = Some msg" and "msg \<noteq> []"
    and "data r = [] \<or> parse (data r) \<noteq> None"
  shows "otaSend S parse (Some d) s = Some (Inl (Error msg), Some d2)"
proof -
  have o: "opened d1" using assms(1,3) by (simp add: sendLoop_opened)
  have f: "finishFR parse r = Inl (Error msg)"
    using assms(5,6,7) by (auto simp: finishFR_def truthy_simps)
  have "processFR S parse (Some d1) = Some (Inl (Error msg), Some d2)"
    using o assms(4) f by (simp add: processFR_def)
  then show ?thesis
    using assms(1,2,3) by (simp add: otaSend_def truthy_simps)
qed

text \<open>
  Where it does not: the payload is parsed before the recorded error is looked at, so a
  recorded error after a payload that the JSON parser rejects ends in the parser's
  SyntaxError, not in the recorded message.
\<close>

lemma recorded_error_after_rejected_payload:
  assumes "frLoop S d 1 \<lparr>error = None, data = []\<rparr> = Some (Inr r, d')" and "opened d"
    and "error r = Some msg" and "data r \<noteq> []" and "parse (data r) = None"
  shows "processFR S parse (Some d) = Some (Inl SyntaxError, Some d')"
  using assms by (simp add: processFR_def finishFR_def)

text \<open>
  C5. When the receiver has recorded an error from a NACK report, the exchange should
  fail with the recorded message and return no value. On a NACK report with an empty
  payload the recorded message is the empty string, the final test \<open>if
  (reportResponse.error)\<close> takes it for no error, and send returns the empty text as its
  value.
\<close>

theorem nack_empty_payload_returns_value:
  "otaSend defaultStrings (\<lambda>t. (None :: unit option)) (Some (mockDevice [incoming 4 0 []])) (js ''hb'')
   = Some (Inr (Text []),
           Some (mockDevice [incoming 4 0 []]
                 \<lparr>sent := [(6, chunkFrame (TextEncoder_encode (js ''hb'')) 0)], received := 1\<rparr>))"
proof -
  let ?d = "mockDevice [incoming 4 0 []]"
  let ?d1 = "?d\<lparr>sent := [(6, chunkFrame (TextEncoder_encode (js ''hb'')) 0)]\<rparr>"
  have e: "TextEncoder_encode (js ''hb'') = [0x68, 0x62]"
    by (simp add: TextEncoder_encode_def utf8_bytes_def js_def)
  have n: "nchunks (TextEncoder_encode (js ''hb'')) = 1" by (simp add: e nchunks_def)
  have s: "sendLoop defaultStrings ?d (TextEncoder_encode (js ''hb'')) 0 0 = (None, ?d1)"
    by (simp add: sendLoop_all_accepted mockDevice_simps n)
  have dec: "decodeFR (incoming 4 0 []) = Inr (4, 0, [])"
    by (simp add: decodeFR_def incoming_def newUint8Array_def getUint16LE_def getUint8_def
          TextDecoder_decode_def stripBOM_def)
  have l: "frLoop defaultStrings ?d1 1 \<lparr>error = None, data = []\<rparr>
           = Some (Inr \<lparr>error = Some [], data = []\<rparr>, ?d1\<lparr>received := 1\<rparr>)"
    apply (subst frLoop.simps)
    apply (simp add: receiveFeatureReport_def mockDevice_simps dec dispatch_def)
    apply (subst frLoop.simps)
    apply simp
    done
  have ne: "js ''hb'' \<noteq> []" by (simp add: js_def)
  show ?thesis
    using ne l by (simp add: otaSend_def truthy_simps s processFR_def mockDevice_simps finishFR_def)
qed

text \<open>
  C6. Every incoming report shorter than 6 bytes should be decoded with an empty payload
  and without a throw. The code clamps the length of the payload view, but then reads the
  declared length at bytes 4 and 5 without any guard: on the 5-byte report
  06 00 FF 02 00 decoding throws a RangeError, and the exchange fails with it.
\<close>

theorem short_frame_throws:
  "decodeFR \<lparr>buffer = [0x06, 0x00, 0xFF, 0x02, 0x00], byteOffset = 0, byteLength = 5\<rparr> = Inl RangeError
   \<and> processFR defaultStrings (\<lambda>t. (None :: unit option))
        (Some (mockDevice [\<lparr>buffer = [0x06, 0x00, 0xFF, 0x02, 0x00], byteOffset = 0, byteLength = 5\<rparr>]))
      = Some (Inl RangeError,
              Some (mockDevice [\<lparr>buffer = [0x06, 0x00, 0xFF, 0x02, 0x00], byteOffset = 0, byteLength = 5\<rparr>]
                    \<lparr>received := 1\<rparr>))"
proof -
  let ?dv = "\<lparr>buffer = [0x06, 0x00, 0xFF, 0x02, 0x00], byteOffset = 0, byteLength = 5\<rparr>"
  have dec: "decodeFR ?dv = Inl RangeError" by (rule decodeFR_short) simp
  have "frLoop defaultStrings (mockDevice [?dv]) 1 \<lparr>error = None, data = []\<rparr>
        = Some (Inl RangeError, mockDevice [?dv]\<lparr>received := 1\<rparr>)"
    by (subst frLoop.simps) (simp add: receiveFeatureReport_def mockDevice_simps dec)
  with dec show ?thesis by (simp add: processFR_def mockDevice_simps)
qed

text \<open>
  C7. Whenever the receiver reads a report with message type ACK_RSP (3), it sets
  \<open>remaining\<close> to 1 and goes round the loop again with the response unchanged, which
  makes one more transport read: a run of the loop that returns has made at least two
  reads, the one of the ACK_RSP report and the next.
\<close>

theorem ack_rsp_forces_read:
  assumes "remaining \<noteq> 0" and "recvScript d (received d) = Inr dv"
    and "decodeFR dv = Inr (3, len, txt)"
  shows "dispatch S r (3, len, txt) = (1, r)
       \<and> frLoop S d remaining r = frLoop S (d\<lparr>received := Suc (received d)\<rparr>) 1 r
       \<and> (\<forall>y. frLoop S d remaining r = Some y \<longrightarrow> received d + 2 \<le> received (snd y))"
proof -
  have a: "dispatch S r (3, len, txt) = (1, r)" by (simp add: dispatch_def)
  have b: "frLoop S d remaining r = frLoop S (d\<lparr>received := Suc (received d)\<rparr>) 1 r"
    using assms a by (subst frLoop.simps) (simp add: receiveFeatureReport_def)
  have c: "\<forall>y. frLoop S d remaining r = Some y \<longrightarrow> received d + 2 \<le> received (snd y)"
  proof (intro allI impI)
    fix y assume "frLoop S d remaining r = Some y"
    with b have "frLoop S (d\<lparr>received := Suc (received d)\<rparr>) 1 r = Some y" by simp
    from frLoop_reads_once[OF this] show "received d + 2 \<le> received (snd y)" by simp
  qed
  from a b c show ?thesis by blast
qed

theorem ack_rsp_forces_read_witness:
  "frLoop defaultStrings (mockDevice [incoming 3 0 [], incoming 2 0 []]) 1 \<lparr>error = None, data = []\<rparr>
     = Some (Inr \<lparr>error = None, data = []\<rparr>, mockDevice [incoming 3 0 [], incoming 2 0 []]\<lparr>received := 2\<rparr>)
   \<and> received (mockDevice [incoming 3 0 [], incoming 2 0 []]) + 2
       \<le> received (snd (the (frLoop defaultStrings (mockDevice [incoming 3 0 [], incoming 2 0 []]) 1
                                  \<lparr>error = None, data = []\<rparr>)))"
proof -
  let ?d = "mockDevice [incoming 3 0 [], incoming 2 0 []]"
  let ?r = "\<lparr>error = None, data = []\<rparr>"
  have one: "(1::nat) \<noteq> 0" by simp
  have rd: "recvScript ?d (received ?d) = Inr (incoming 3 0 [])" by (simp add: mockDevice_simps)
  have dec: "decodeFR (incoming 3 0 []) = Inr (3, 0, [])"
    by (simp add: decodeFR_def incoming_def newUint8Array_def getUint16LE_def getUint8_def
          TextDecoder_decode_def stripBOM_def)
  have dec2: "decodeFR (incoming 2 0 []) = Inr (2, 0, [])"
    by (simp add: decodeFR_def incoming_def newUint8Array_def getUint16LE_def getUint8_def
          TextDecoder_decode_def stripBOM_def)
  note t = ack_rsp_forces_read[OF one rd dec, of defaultStrings ?r]
  have nxt: "frLoop defaultStrings (?d\<lparr>received := Suc (received ?d)\<rparr>) 1 ?r
             = Some (Inr ?r, ?d\<lparr>received := 2\<rparr>)"
    apply (subst frLoop.simps)
    apply (simp add: receiveFeatureReport_def mockDevice_simps dec2 dispatch_def)
    apply (subst frLoop.simps)
    apply simp
    done
  from t nxt have ret: "frLoop defaultStrings ?d 1 ?r = Some (Inr ?r, ?d\<lparr>received := 2\<rparr>)" by simp
  from t ret have "received ?d + 2 \<le> received (snd (Inr ?r :: jserror + reportResponse, ?d\<lparr>received := 2\<rparr>))"
    by blast
  with ret show ?thesis by simp
qed

text \<open>
  Where the precondition check works: when the configured \<open>deviceNotOpened\<close> message is
  not the empty string, as in the default strings, send on an unopened transport fails
  with it and leaves the transport untouched.
\<close>

lemma otaSend_not_opened:
  assumes "\<not> opened d" and "deviceNotOpened S \<noteq> []"
  shows "otaSend S parse (Some d) s = Some (Inl (Error (deviceNotOpened S)), Some d)"
  using assms by (simp add: otaSend_def truthy_simps)

lemma otaSend_not_opened_default:
  assumes "\<not> opened d"
  shows "otaSend defaultStrings parse (Some d) s = Some (Inl (Error (js ''Device not opened'')), Some d)"
proof -
  have "deviceNotOpened defaultStrings \<noteq> []" by (simp add: defaultStrings_def js_def)
  from otaSend_not_opened[OF assms this] show ?thesis by (simp add: defaultStrings_def)
qed

text \<open>
  C8. For every transport whose opened flag is false, send should fail with the
  DeviceNotOpened error without writing. \<open>otaSend\<close> throws the precondition message
  only when it is truthy, where \<open>processFR\<close> throws it always: once the locale
  overrides \<open>deviceNotOpened\<close> by the empty string, nothing is thrown up front, and the
  report of the command is written to the unopened transport. Here the transport rejects
  the write, and send fails with the wrapped write error.
\<close>

theorem otaSend_not_opened_empty_message_writes:
  "otaSend (configureOtaLocale defaultStrings [(''deviceNotOpened'', [])]) (\<lambda>t. (None :: unit option))
     (Some (mockDevice []\<lparr>opened := False, sendScript := (\<lambda>n. Some (js ''InvalidStateError''))\<rparr>))
     (js ''hb'')
   = Some (Inl (Error (js ''Error sending feature report: InvalidStateError'')),
           Some (mockDevice []\<lparr>opened := False, sendScript := (\<lambda>n. Some (js ''InvalidStateError'')),
                   sent := [(6, [0x00, 0xFF, 0x00, 0x02, 0x00, 0x68, 0x62] @ replicate 237 0)]\<rparr>))"
proof -
  let ?S = "configureOtaLocale defaultStrings [(''deviceNotOpened'', [])]"
  let ?d = "mockDevice []\<lparr>opened := False, sendScript := (\<lambda>n. Some (js ''InvalidStateError''))\<rparr>"
  have m: "deviceNotOpened ?S = []" by (simp add: configureOtaLocale_def)
  have w: "fmt (errorSendingFeatureReport ?S) [(js ''error'', js ''InvalidStateError'')]
           = js ''Error sending feature report: InvalidStateError''"
    by (simp add: configureOtaLocale_def defaultStrings_def fmt_def js_def isWordChar_def lookupVar_def)
  have e: "TextEncoder_encode (js ''hb'') = [0x68, 0x62]"
    by (simp add: TextEncoder_encode_def utf8_bytes_def js_def)
  have b: "buildFR 0 2 [0x68, 0x62] = Inr ([0x00, 0xFF, 0x00, 0x02, 0x00, 0x68, 0x62] @ replicate 237 0)"
    by (subst buildFR_eq) (simp_all add: and_255_nat drop_bit_eq_div)
  have s: "sendLoop ?S ?d [0x68, 0x62] 0 0
           = (Some (Error (js ''Error sending feature report: InvalidStateError'')),
              ?d\<lparr>sent := [(6, [0x00, 0xFF, 0x00, 0x02, 0x00, 0x68, 0x62] @ replicate 237 0)]\<rparr>)"
    by (subst sendLoop.simps)
       (simp add: Let_def b[unfolded numeral_2_eq_2] sendFeatureReport_def mockDevice_simps w)
  show ?thesis
    by (simp add: otaSend_def truthy_simps m e s)
qed

text \<open>
  C9. For every open transport, send with an empty command text fails with the
  empty-command error, whose message is "No data", and leaves the transport untouched: it
  fails before any report is written.
\<close>

theorem otaSend_empty_text:
  assumes "opened d"
  shows "otaSend S parse (Some d) [] = Some (Inl (Error (js ''No data'')), Some d)"
  using assms by (simp add: otaSend_def truthy_simps js_def)

theorem otaSend_empty_text_witness:
  "otaSend defaultStrings (\<lambda>t. (None :: unit option)) (Some (mockDevice [])) []
   = Some (Inl (Error (js ''No data'')), Some (mockDevice []))"
  by (rule otaSend_empty_text[OF mockDevice_simps(1)])

text \<open>
  C10. close, called on a device, always sets the stored device handle to null, and does
  so before it closes the transport: when the transport is open and its close is
  rejected, close throws the wrapped close error with the session already detached (and
  the transport still open).
\<close>

theorem otaClose_detaches:
  "device (fst (snd (otaClose S g (Some d)))) = None \<and>
   (opened d \<and> closeScript d = Some e \<longrightarrow>
      otaClose S g (Some d) =
        (Some (Error (fmt (errorClosingDevice S) [(js ''error'', e)])), g\<lparr>device := None\<rparr>, Some d))"
  by (simp add: otaClose_def closeDevice_def Let_def split: option.splits prod.splits)

theorem otaClose_detaches_witness:
  "otaClose defaultStrings \<lparr>hbTimeout = 9000, device = Some 1\<rparr>
     (Some (mockDevice []\<lparr>closeScript := Some (js ''NetworkError'')\<rparr>))
   = (Some (Error (js ''Error closing device: NetworkError'')),
      \<lparr>hbTimeout = 9000, device = None\<rparr>,
      Some (mockDevice []\<lparr>closeScript := Some (js ''NetworkError'')\<rparr>))"
proof -
  let ?d = "mockDevice []\<lparr>closeScript := Some (js ''NetworkError'')\<rparr>"
  have h: "opened ?d \<and> closeScript ?d = Some (js ''NetworkError'')" by (simp add: mockDevice_simps)
  have m: "fmt (errorClosingDevice defaultStrings) [(js ''error'', js ''NetworkError'')]
           = js ''Error closing device: NetworkError''"
    by (simp add: fmt_def defaultStrings_def js_def isWordChar_def lookupVar_def)
  from otaClose_detaches[of defaultStrings "\<lparr>hbTimeout = 9000, device = Some 1\<rparr>" ?d "js ''NetworkError''"] h
  have "otaClose defaultStrings \<lparr>hbTimeout = 9000, device = Some 1\<rparr> (Some ?d)
        = (Some (Error (fmt (errorClosingDevice defaultStrings) [(js ''error'', js ''NetworkError'')])),
           \<lparr>hbTimeout = 9000, device = Some 1\<rparr>\<lparr>device := None\<rparr>, Some ?d)"
    by blast
  then show ?thesis unfolding m by simp
qed

end
